theory Spec2Isabelle
  imports Main "HOL-Library.Word"
begin

unbundle bit_operations_syntax

section \<open>Common types\<close>

text \<open>
  Python \<open>bytes\<close> and \<open>bytearray\<close> are lists of 8-bit words. Python integers are
  unbounded and are modelled by \<open>int\<close>. An exception that leaves a function is a
  value \<open>Inl e\<close> of the result type.
\<close>

type_synonym byte = "8 word"

datatype error = ValueError | ZeroDivisionError | KeyError | IndexError

section \<open>KISS codec (network/kiss.py)\<close>

datatype KISSCommand =
    DATA_FRAME | TX_DELAY | PERSISTENCE | SLOT_TIME | TX_TAIL | FULL_DUPLEX
  | SET_HARDWARE | RETURN

text \<open>The integer value of each member of the \<open>IntEnum\<close>.\<close>

fun KISSCommand_value :: "KISSCommand \<Rightarrow> int" where
  "KISSCommand_value DATA_FRAME = 0"
| "KISSCommand_value TX_DELAY = 1"
| "KISSCommand_value PERSISTENCE = 2"
| "KISSCommand_value SLOT_TIME = 3"
| "KISSCommand_value TX_TAIL = 4"
| "KISSCommand_value FULL_DUPLEX = 5"
| "KISSCommand_value SET_HARDWARE = 6"
| "KISSCommand_value RETURN = 15"

text \<open>
  The enum constructor \<open>KISSCommand(n)\<close>: a value that is no member raises
  \<open>ValueError\<close>.
\<close>

definition KISSCommand_of :: "byte \<Rightarrow> error + KISSCommand" where
  "KISSCommand_of n =
     (if n = 0 then Inr DATA_FRAME
      else if n = 1 then Inr TX_DELAY
      else if n = 2 then Inr PERSISTENCE
      else if n = 3 then Inr SLOT_TIME
      else if n = 4 then Inr TX_TAIL
      else if n = 5 then Inr FULL_DUPLEX
      else if n = 6 then Inr SET_HARDWARE
      else if n = 15 then Inr RETURN
      else Inl ValueError)"

definition FEND :: byte where "FEND = 0xC0"
definition FESC :: byte where "FESC = 0xDB"
definition TFEND :: byte where "TFEND = 0xDC"
definition TFESC :: byte where "TFESC = 0xDD"

record KISSFrame =
  port :: int
  command :: KISSCommand
  data :: "byte list"

text \<open>The escaping loop of \<open>KISSFrame.encode\<close>.\<close>

fun escape :: "byte list \<Rightarrow> byte list" where
  "escape [] = []"
| "escape (b # bs) =
     (if b = FEND then FESC # TFEND # escape bs
      else if b = FESC then FESC # TFESC # escape bs
      else b # escape bs)"

text \<open>
  \<open>KISSFrame.encode\<close>. \<open>bytes([cmd_byte])\<close> raises \<open>ValueError\<close> unless
  \<open>0 \<le> cmd_byte < 256\<close>.
\<close>

definition KISSFrame_encode :: "KISSFrame \<Rightarrow> error + byte list" where
  "KISSFrame_encode f =
     (let cmd_byte = push_bit 4 (port f) OR KISSCommand_value (command f)
      in if 0 \<le> cmd_byte \<and> cmd_byte < 256
         then Inr ([FEND] @ escape (word_of_int cmd_byte # data f) @ [FEND])
         else Inl ValueError)"

text \<open>
  The unescaping loop of \<open>KISSFrame.decode\<close>; \<open>None\<close> is its
  \<open>return None\<close> on an invalid or incomplete escape sequence.
\<close>

fun unescape :: "byte list \<Rightarrow> byte list option" where
  "unescape [] = Some []"
| "unescape (b # bs) =
     (if b = FESC then
        (case bs of
           [] \<Rightarrow> None
         | c # cs \<Rightarrow>
             if c = TFEND then map_option ((#) FEND) (unescape cs)
             else if c = TFESC then map_option ((#) FESC) (unescape cs)
             else None)
      else map_option ((#) b) (unescape bs))"

text \<open>
  \<open>KISSFrame.decode\<close>: \<open>Inr None\<close> is the returned \<open>None\<close>, \<open>Inl ValueError\<close>
  the exception of the enum constructor, which the function does not catch.
\<close>

definition KISSFrame_decode :: "byte list \<Rightarrow> error + KISSFrame option" where
  "KISSFrame_decode d =
     (if d = [] then Inr None
      else
        let d1 = (if hd d = FEND then tl d else d);
            d2 = (if d1 \<noteq> [] \<and> last d1 = FEND then butlast d1 else d1)
        in if d2 = [] then Inr None
           else
             (case unescape d2 of
                None \<Rightarrow> Inr None
              | Some [] \<Rightarrow> Inr None
              | Some (cmd_byte # frame_data) \<Rightarrow>
                  (case KISSCommand_of (cmd_byte AND 0x0F) of
                     Inl e \<Rightarrow> Inl e
                   | Inr c \<Rightarrow>
                       Inr (Some \<lparr>port = uint (drop_bit 4 cmd_byte AND 0x0F),
                                  command = c, data = frame_data\<rparr>))))"

text \<open>\<open>bytearray.find(b, start)\<close>: the first index \<open>\<ge> start\<close> holding \<open>b\<close>.\<close>

fun find_from :: "byte \<Rightarrow> byte list \<Rightarrow> nat \<Rightarrow> nat option" where
  "find_from b [] start = None"
| "find_from b (x # xs) start =
     (if start = 0 then (if x = b then Some 0 else map_option Suc (find_from b xs 0))
      else map_option Suc (find_from b xs (start - 1)))"

lemma find_from_less: "find_from b xs s = Some i \<Longrightarrow> i < length xs"
  by (induction b xs s arbitrary: i rule: find_from.induct) (auto split: if_splits)

text \<open>
  The \<open>while FEND in self.buffer\<close> loop of \<open>KISSProtocol.decode_frames\<close>. The state
  is the buffer and the frames collected so far; the result pairs the returned list, or
  the exception that left the loop, with the buffer the object holds afterwards.
\<close>

function decode_loop ::
  "byte list \<Rightarrow> KISSFrame list \<Rightarrow> (error + KISSFrame list) \<times> byte list" where
  "decode_loop buf frames =
     (case find_from FEND buf 0 of
        None \<Rightarrow> (Inr frames, buf)
      | Some start_idx \<Rightarrow>
          (case find_from FEND buf (start_idx + 1) of
             None \<Rightarrow> (Inr frames, buf)
           | Some end_idx \<Rightarrow>
               (case KISSFrame_decode (take (end_idx + 1 - start_idx) (drop start_idx buf)) of
                  Inl e \<Rightarrow> (Inl e, drop (end_idx + 1) buf)
                | Inr None \<Rightarrow> decode_loop (drop (end_idx + 1) buf) frames
                | Inr (Some f) \<Rightarrow>
                    decode_loop (drop (end_idx + 1) buf)
                      (if command f = DATA_FRAME then frames @ [f] else frames))))"
  by pat_completeness auto
termination
  by (relation "measure (\<lambda>(buf, frames). length buf)")
     (auto dest!: find_from_less)

text \<open>\<open>KISSProtocol.decode_frames\<close> on a handler whose buffer is \<open>buf\<close>.\<close>

definition decode_frames ::
  "byte list \<Rightarrow> byte list \<Rightarrow> (error + KISSFrame list) \<times> byte list" where
  "decode_frames buf d = decode_loop (buf @ d) []"

text \<open>\<open>KISSProtocol.encode_data\<close> on a handler for port \<open>p\<close>.\<close>

definition encode_data :: "int \<Rightarrow> byte list \<Rightarrow> error + byte list" where
  "encode_data p d = KISSFrame_encode \<lparr>port = p, command = DATA_FRAME, data = d\<rparr>"

subsection \<open>Properties of the KISS codec\<close>

lemma escape_no_FEND: "FEND \<notin> set (escape bs)"
  by (induction bs) (auto simp: FEND_def FESC_def TFEND_def TFESC_def)

lemma unescape_escape: "unescape (escape bs) = Some bs"
  by (induction bs) (auto simp: FEND_def FESC_def TFEND_def TFESC_def)

lemma find_from_absent: "b \<notin> set xs \<Longrightarrow> find_from b (xs @ [b]) 0 = Some (length xs)"
  by (induction xs) auto

lemma cmd_byte_nibbles:
  assumes "0 \<le> p" "p \<le> 15"
  shows "(word_of_int (push_bit 4 p OR 0) :: byte) AND 0x0F = 0"
    and "uint (drop_bit 4 (word_of_int (push_bit 4 p OR 0) :: byte) AND 0x0F) = p"
proof -
  from assms have p: "p \<in> {0,1,2,3,4,5,6,7,8,9,10,11,12,13,14,15}"
    by simp presburger
  then show "(word_of_int (push_bit 4 p OR 0) :: byte) AND 0x0F = 0"
    by (elim insertE) (simp_all add: push_bit_eq_mult)
  from p show "uint (drop_bit 4 (word_of_int (push_bit 4 p OR 0) :: byte) AND 0x0F) = p"
    by (elim insertE) (simp_all add: push_bit_eq_mult)
qed

lemma decode_loop_nil: "decode_loop [] fs = (Inr fs, [])"
  by simp

lemma decode_loop_step:
  assumes "find_from FEND buf 0 = Some s"
    and "find_from FEND buf (s + 1) = Some e"
    and "KISSFrame_decode (take (e + 1 - s) (drop s buf)) = Inr (Some f)"
  shows "decode_loop buf frames =
           decode_loop (drop (e + 1) buf) (if command f = DATA_FRAME then frames @ [f] else frames)"
  using assms by (subst decode_loop.simps) (simp del: decode_loop.simps)

text \<open>
  Claim C7 (KISS escape round-trip). For every byte string \<open>b\<close>, also one holding
  \<open>0xC0\<close> and \<open>0xDB\<close>, and every port \<open>0..15\<close> of the handler, \<open>encode_data\<close>
  succeeds, and \<open>decode_frames\<close> of a handler with an empty buffer returns, for the
  encoded bytes, exactly one frame: the data frame of that port whose payload is \<open>b\<close>.
  The buffer is empty again afterwards.
\<close>

theorem kiss_roundtrip:
  assumes "0 \<le> p" "p \<le> 15"
  shows "\<exists>e. encode_data p b = Inr e \<and>
             decode_frames [] e = (Inr [\<lparr>port = p, command = DATA_FRAME, data = b\<rparr>], [])"
proof -
  define c :: byte where "c = word_of_int (push_bit 4 p OR 0)"
  define esc where "esc = escape (c # b)"
  define e where "e = [FEND] @ esc @ [FEND]"
  from assms have rng: "0 \<le> push_bit 4 p OR (0::int)" "push_bit 4 p OR (0::int) < 256"
    by (simp_all add: push_bit_eq_mult)
  have enc: "encode_data p b = Inr e"
    using rng by (simp add: encode_data_def KISSFrame_encode_def e_def esc_def c_def)
  have noF: "FEND \<notin> set esc"
    by (simp only: esc_def escape_no_FEND not_False_eq_True)
  have ne: "esc \<noteq> []"
    by (simp add: esc_def)
  have f0: "find_from FEND e 0 = Some 0"
    by (simp add: e_def)
  have f1: "find_from FEND e (0 + 1) = Some (Suc (length esc))"
    using find_from_absent[OF noF] by (simp add: e_def)
  have tk: "take (Suc (length esc) + 1 - 0) (drop 0 e) = e"
    by (simp add: e_def)
  have dr: "drop (Suc (length esc) + 1) e = []"
    by (simp add: e_def)
  have un: "unescape esc = Some (c # b)"
    by (simp only: esc_def unescape_escape)
  have dec: "KISSFrame_decode e = Inr (Some \<lparr>port = p, command = DATA_FRAME, data = b\<rparr>)"
    using ne un cmd_byte_nibbles[OF assms]
    by (simp add: KISSFrame_decode_def e_def c_def KISSCommand_of_def)
  have "decode_loop e [] = (Inr [\<lparr>port = p, command = DATA_FRAME, data = b\<rparr>], [])"
    using decode_loop_step[OF f0 f1, of "\<lparr>port = p, command = DATA_FRAME, data = b\<rparr>" "[]"]
      tk dr dec
    by (simp del: decode_loop.simps add: decode_loop_nil)
  then show ?thesis
    using enc by (simp add: decode_frames_def)
qed

theorem kiss_roundtrip_witness:
  "encode_data 0 [0xC0, 0xDB, 0x41] = Inr [0xC0, 0x00, 0xDB, 0xDC, 0xDB, 0xDD, 0x41, 0xC0] \<and>
   decode_frames [] [0xC0, 0x00, 0xDB, 0xDC, 0xDB, 0xDD, 0x41, 0xC0]
     = (Inr [\<lparr>port = 0, command = DATA_FRAME, data = [0xC0, 0xDB, 0x41]\<rparr>], [])"
proof -
  have e: "encode_data 0 [0xC0, 0xDB, 0x41]
             = Inr [0xC0, 0x00, 0xDB, 0xDC, 0xDB, 0xDD, 0x41, 0xC0]"
    by (simp add: encode_data_def KISSFrame_encode_def FEND_def FESC_def TFEND_def TFESC_def)
  from kiss_roundtrip[of 0 "[0xC0, 0xDB, 0x41]"] e show ?thesis
    by simp
qed

text \<open>
  Claim C8 (decode errors never propagate). The claim fails in \<open>decode_frames\<close>: on
  the three bytes \<open>C0 07 C0\<close> the command nibble 7 is no member of
  \<open>KISSCommand\<close>, the enum constructor raises \<open>ValueError\<close> inside
  \<open>KISSFrame.decode\<close>, nothing catches it, and it leaves \<open>decode_frames\<close>; the
  bytes are already removed from the buffer.
\<close>

theorem decode_frames_raises:
  "decode_frames [] [0xC0, 0x07, 0xC0] = (Inl ValueError, [])"
  by (simp add: decode_frames_def KISSFrame_decode_def KISSCommand_of_def FEND_def FESC_def)

section \<open>Text and integers of the Python runtime\<close>

text \<open>
  A Python \<open>str\<close> is modelled by a \<open>string\<close>, the list of the bytes of its UTF-8
  form, so that \<open>str.encode('utf-8')\<close> and a successful \<open>bytes.decode('utf-8')\<close>
  are the identity. The separators the code splits on (\<open>|\<close>, \<open>=\<close>, \<open>,\<close>,
  \<open>-\<close>) are ASCII, and a byte of that value in UTF-8 text is that character, so
  splitting the bytes is splitting the text. Case mapping and classification are modelled
  on ASCII; the bytes of other characters are left unchanged and belong to no class.
\<close>

definition is_digit :: "char \<Rightarrow> bool" where
  "is_digit c = (48 \<le> (of_char c :: nat) \<and> (of_char c :: nat) \<le> 57)"

definition digit_val :: "char \<Rightarrow> nat" where
  "digit_val c = of_char c - 48"

definition digit_char :: "nat \<Rightarrow> char" where
  "digit_char d = char_of (48 + d)"

definition is_upper_char :: "char \<Rightarrow> bool" where
  "is_upper_char c = (65 \<le> (of_char c :: nat) \<and> (of_char c :: nat) \<le> 90)"

definition is_lower_char :: "char \<Rightarrow> bool" where
  "is_lower_char c = (97 \<le> (of_char c :: nat) \<and> (of_char c :: nat) \<le> 122)"

definition is_ascii_char :: "char \<Rightarrow> bool" where
  "is_ascii_char c = ((of_char c :: nat) < 128)"

text \<open>The characters \<open>int()\<close> and \<open>str.strip()\<close> treat as white space, in ASCII.\<close>

definition is_space :: "char \<Rightarrow> bool" where
  "is_space c = (let n = (of_char c :: nat) in (9 \<le> n \<and> n \<le> 13) \<or> (28 \<le> n \<and> n \<le> 32))"

text \<open>
  \<open>str.upper()\<close> on ASCII text: the letters \<open>a..z\<close> are mapped, every other
  character is kept. On text outside ASCII \<open>str.upper()\<close> maps further letters and
  may change the number of characters (a sharp s becomes \<open>SS\<close>); \<open>upper\<close> is not
  \<open>str.upper()\<close> there, and is only used on ASCII text in what is proved below.
\<close>

definition upper_char :: "char \<Rightarrow> char" where
  "upper_char c = (if is_lower_char c then char_of ((of_char c :: nat) - 32) else c)"

definition upper :: "string \<Rightarrow> string" where
  "upper s = map upper_char s"

text \<open>\<open>str.isascii()\<close> and \<open>str.islower()\<close>: no upper-case letter and at least one
  lower-case letter.\<close>

definition isascii :: "string \<Rightarrow> bool" where
  "isascii s = list_all is_ascii_char s"

definition islower :: "string \<Rightarrow> bool" where
  "islower s = (list_ex is_lower_char s \<and> \<not> list_ex is_upper_char s)"

text \<open>\<open>str(n)\<close> for an integer \<open>n\<close>.\<close>

fun digits :: "nat \<Rightarrow> string" where
  "digits n = (if n < 10 then [digit_char n] else digits (n div 10) @ [digit_char (n mod 10)])"

declare digits.simps [simp del]

definition str_int :: "int \<Rightarrow> string" where
  "str_int n = (if n < 0 then CHR ''-'' # digits (nat (- n)) else digits (nat n))"

text \<open>
  \<open>int(s)\<close> for a string \<open>s\<close>, in base 10: white space around the number is ignored,
  a sign may come first, and single underscores may separate digits. Anything else
  raises \<open>ValueError\<close>, the value \<open>None\<close> here.
\<close>

fun parse_digits :: "string \<Rightarrow> nat \<Rightarrow> nat option" where
  "parse_digits [] acc = Some acc"
| "parse_digits (c # cs) acc =
     (if is_digit c then parse_digits cs (10 * acc + digit_val c)
      else if c = CHR ''_'' then
        (case cs of
           [] \<Rightarrow> None
         | d # ds \<Rightarrow> if is_digit d then parse_digits ds (10 * acc + digit_val d) else None)
      else None)"

definition parse_nat :: "string \<Rightarrow> nat option" where
  "parse_nat s =
     (case s of
        [] \<Rightarrow> None
      | c # cs \<Rightarrow> if is_digit c then parse_digits cs (digit_val c) else None)"

definition strip :: "string \<Rightarrow> string" where
  "strip s = rev (dropWhile is_space (rev (dropWhile is_space s)))"

definition int_of_str :: "string \<Rightarrow> int option" where
  "int_of_str s =
     (case strip s of
        [] \<Rightarrow> None
      | c # cs \<Rightarrow>
          if c = CHR ''-'' then map_option (\<lambda>n. - int n) (parse_nat cs)
          else if c = CHR ''+'' then map_option int (parse_nat cs)
          else map_option int (parse_nat (c # cs)))"

text \<open>\<open>s.split(sep)\<close> for a one-character separator: every occurrence splits.\<close>

fun split :: "char \<Rightarrow> string \<Rightarrow> string list" where
  "split sep [] = [[]]"
| "split sep (c # cs) =
     (if c = sep then [] # split sep cs
      else (case split sep cs of [] \<Rightarrow> [[c]] | p # ps \<Rightarrow> (c # p) # ps))"

text \<open>\<open>s.split(sep, 1)\<close> where \<open>sep\<close> occurs in \<open>s\<close>: the parts before and after the
  first occurrence.\<close>

definition split1 :: "char \<Rightarrow> string \<Rightarrow> string \<times> string" where
  "split1 sep s = (takeWhile (\<lambda>c. c \<noteq> sep) s, drop 1 (dropWhile (\<lambda>c. c \<noteq> sep) s))"

text \<open>\<open>sep.join(parts)\<close>.\<close>

fun join :: "char \<Rightarrow> string list \<Rightarrow> string" where
  "join sep [] = []"
| "join sep [p] = p"
| "join sep (p # q # ps) = p @ sep # join sep (q # ps)"

section \<open>AX.25 addresses (network/ax25.py)\<close>

record AX25Address =
  callsign :: string
  ssid :: int

text \<open>
  The constructor with \<open>__post_init__\<close>: the call sign is upper-cased, then its length
  and the SSID are checked. The definition is the constructor on ASCII call signs, where
  the bytes of a \<open>string\<close> are the characters \<open>len\<close> counts and \<open>upper\<close> is
  \<open>str.upper()\<close>. On other call signs \<open>len\<close> counts characters, not bytes, and
  \<open>str.upper()\<close> maps letters outside ASCII too and can lengthen the text; the
  definition does not describe the constructor there, and every property below that
  speaks of the constructor or of \<open>parse\<close> is stated for ASCII text only.
\<close>

definition AX25Address_init :: "string \<Rightarrow> int \<Rightarrow> error + AX25Address" where
  "AX25Address_init cs ss =
     (let c = upper cs
      in if length c > 6 then Inl ValueError
         else if \<not> (0 \<le> ss \<and> ss \<le> 15) then Inl ValueError
         else Inr \<lparr>callsign = c, ssid = ss\<rparr>)"

text \<open>\<open>AX25Address.encode\<close> (\<open>ljust\<close> pads to six characters; \<open>bytearray.append\<close>
  raises \<open>ValueError\<close> for a value outside \<open>0..255\<close>).\<close>

definition ljust :: "nat \<Rightarrow> char \<Rightarrow> string \<Rightarrow> string" where
  "ljust n c s = s @ replicate (n - length s) c"

definition AX25Address_encode :: "AX25Address \<Rightarrow> bool \<Rightarrow> error + byte list" where
  "AX25Address_encode a is_last =
     (let padded = ljust 6 (CHR '' '') (callsign a);
          shifted = map (\<lambda>ch. push_bit 1 (of_char ch :: int)) padded;
          ssid_byte = (0x60 OR push_bit 1 (ssid a)) OR (if is_last then 1 else 0)
      in if list_all (\<lambda>v. 0 \<le> v \<and> v < 256) (shifted @ [ssid_byte])
         then Inr (map word_of_int (shifted @ [ssid_byte]))
         else Inl ValueError)"

text \<open>\<open>AX25Address.decode\<close>: \<open>Inr None\<close> when the data are not seven bytes.\<close>

definition AX25Address_decode :: "byte list \<Rightarrow> error + AX25Address option" where
  "AX25Address_decode d =
     (if length d \<noteq> 7 then Inr None
      else
        let callsign_chars =
              filter (\<lambda>ch. ch \<noteq> CHR '' '') (map (\<lambda>b. char_of (unat (drop_bit 1 b))) (take 6 d));
            ss = uint (drop_bit 1 (d ! 6) AND 0x0F)
        in (case AX25Address_init callsign_chars ss of
              Inl e \<Rightarrow> Inl e
            | Inr a \<Rightarrow> Inr (Some a)))"

text \<open>\<open>AX25Address.parse\<close>; \<open>int\<close> raises \<open>ValueError\<close> on a malformed SSID.\<close>

definition AX25Address_parse :: "string \<Rightarrow> error + AX25Address" where
  "AX25Address_parse address_str =
     (if CHR ''-'' \<in> set address_str then
        (case int_of_str (snd (split1 (CHR ''-'') address_str)) of
           None \<Rightarrow> Inl ValueError
         | Some ss \<Rightarrow> AX25Address_init (fst (split1 (CHR ''-'') address_str)) ss)
      else AX25Address_init address_str 0)"

subsection \<open>Properties of AX.25 addresses\<close>

text \<open>The ASCII case mapping keeps the length.\<close>

lemma length_upper [simp]: "length (upper s) = length s"
  by (simp add: upper_def)

text \<open>What the constructor accepts, and what it then holds.\<close>

lemma AX25Address_init_Inr:
  "AX25Address_init cs ss = Inr a \<longleftrightarrow>
     length cs \<le> 6 \<and> 0 \<le> ss \<and> ss \<le> 15 \<and> a = \<lparr>callsign = upper cs, ssid = ss\<rparr>"
  by (auto simp: AX25Address_init_def Let_def)

lemma AX25Address_init_Inl:
  "AX25Address_init cs ss = Inl e \<longleftrightarrow> e = ValueError \<and> (6 < length cs \<or> ss < 0 \<or> 15 < ss)"
  by (auto simp: AX25Address_init_def Let_def)

lemma nibble_range: "0 \<le> uint (w AND (0x0F :: byte)) \<and> uint (w AND (0x0F :: byte)) \<le> 15"
proof -
  have "w AND 0x0F \<le> (0x0F :: byte)"
    by (rule word_and_le1)
  then have "uint (w AND 0x0F) \<le> uint (0x0F :: byte)"
    by (simp only: word_le_def)
  then show ?thesis
    by simp
qed

lemmas char_eval = char_of_def bit_0

lemma AX25Address_decode_total:
  "AX25Address_decode d = Inr None \<and> length d \<noteq> 7 \<or>
   (\<exists>a. AX25Address_decode d = Inr (Some a) \<and> length d = 7 \<and> length (callsign a) \<le> 6
        \<and> 0 \<le> ssid a \<and> ssid a \<le> 15)"
proof (cases "length d = 7")
  case False
  then show ?thesis
    by (simp add: AX25Address_decode_def)
next
  case True
  let ?cs = "filter (\<lambda>ch. ch \<noteq> CHR '' '') (map (\<lambda>b. char_of (unat (drop_bit 1 b))) (take 6 d))"
  let ?ss = "uint (drop_bit 1 (d ! 6) AND 0x0F)"
  have "length ?cs \<le> length (map (\<lambda>b. char_of (unat (drop_bit 1 b)) :: char) (take 6 d))"
    by (rule length_filter_le)
  then have l: "length ?cs \<le> 6"
    by simp
  have r: "0 \<le> ?ss \<and> ?ss \<le> 15"
    by (rule nibble_range)
  from l r have "AX25Address_init ?cs ?ss = Inr \<lparr>callsign = upper ?cs, ssid = ?ss\<rparr>"
    by (simp add: AX25Address_init_Inr)
  with True l r show ?thesis
    by (simp add: AX25Address_decode_def Let_def)
qed

text \<open>The characters \<open>decode\<close> builds are seven-bit values, so its call sign is ASCII.\<close>

lemma unat_drop_bit_7: "unat (drop_bit (Suc 0) (b :: byte)) < 128"
proof -
  have "unat b < 256"
    using unsigned_less[of b, where 'a = nat] by simp
  then show ?thesis
    by (simp add: drop_bit_eq_div unat_div)
qed

lemma of_char_char_of_7: "unat (drop_bit (Suc 0) (b :: byte)) mod 256 < 128"
  using unat_drop_bit_7[of b] by simp

lemma is_ascii_upper_char: "is_ascii_char c \<Longrightarrow> is_ascii_char (upper_char c)"
proof -
  assume a: "is_ascii_char c"
  have "(of_char c - 32 :: nat) mod 256 < 128" if "(of_char c :: nat) \<le> 122"
    using that by simp
  then show ?thesis
    using a by (simp add: upper_char_def is_ascii_char_def is_lower_char_def)
qed

lemma isascii_upper: "isascii s \<Longrightarrow> isascii (upper s)"
  by (simp add: isascii_def upper_def list_all_iff is_ascii_upper_char)

lemma AX25Address_decode_ascii:
  assumes "AX25Address_decode d = Inr (Some a)"
  shows "isascii (callsign a)"
proof -
  let ?cs = "filter (\<lambda>ch. ch \<noteq> CHR '' '') (map (\<lambda>b. char_of (unat (drop_bit 1 b))) (take 6 d))"
  have "isascii ?cs"
    by (auto simp: isascii_def is_ascii_char_def list_all_iff of_char_char_of_7)
  then have "isascii (upper ?cs)"
    by (rule isascii_upper)
  moreover from assms have "callsign a = upper ?cs"
    by (auto simp: AX25Address_decode_def Let_def AX25Address_init_Inr
        split: if_splits sum.splits)
  ultimately show ?thesis
    by simp
qed

text \<open>
  Claim C10 (AX.25 address invariant), as the code has it, for ASCII call signs. The
  constructor checks an upper bound on the length of the upper-cased call sign and the
  range of the SSID, and nothing else: an address it accepts for an ASCII call sign (and
  so one that \<open>parse\<close> returns for ASCII text, or that \<open>decode\<close> returns, whose
  characters are always ASCII) holds the upper-cased call sign, of at most 6 characters,
  and an SSID in \<open>0..15\<close>; \<open>decode\<close> never raises; and for an ASCII call sign the
  constructor raises \<open>ValueError\<close> exactly when the upper-cased call sign is longer
  than 6 or the SSID is outside \<open>0..15\<close>. There is no lower bound on the length and
  no check of the characters.
\<close>

theorem AX25Address_invariant:
  "(isascii cs \<and> AX25Address_init cs ss = Inr a \<longrightarrow>
      callsign a = upper cs \<and> length (callsign a) \<le> 6 \<and> 0 \<le> ssid a \<and> ssid a \<le> 15)
   \<and> (isascii s \<and> AX25Address_parse s = Inr a \<longrightarrow>
      length (callsign a) \<le> 6 \<and> 0 \<le> ssid a \<and> ssid a \<le> 15)
   \<and> (AX25Address_decode d = Inr (Some a) \<longrightarrow>
      isascii (callsign a) \<and> length (callsign a) \<le> 6 \<and> 0 \<le> ssid a \<and> ssid a \<le> 15)
   \<and> AX25Address_decode d \<noteq> Inl e
   \<and> (isascii cs \<longrightarrow>
        (AX25Address_init cs ss = Inl e \<longleftrightarrow>
           e = ValueError \<and> (6 < length (upper cs) \<or> ss < 0 \<or> 15 < ss)))"
proof (intro conjI impI; (elim conjE)?)
  assume "AX25Address_init cs ss = Inr a"
  then show "callsign a = upper cs" "length (callsign a) \<le> 6" "0 \<le> ssid a" "ssid a \<le> 15"
    by (simp_all add: AX25Address_init_Inr)
next
  assume p: "AX25Address_parse s = Inr a"
  then obtain c n where "AX25Address_init c n = Inr a"
    by (auto simp: AX25Address_parse_def split: if_splits option.splits)
  then show "length (callsign a) \<le> 6" "0 \<le> ssid a" "ssid a \<le> 15"
    by (simp_all add: AX25Address_init_Inr)
next
  assume "AX25Address_decode d = Inr (Some a)"
  with AX25Address_decode_total[of d]
  show "length (callsign a) \<le> 6" "0 \<le> ssid a" "ssid a \<le> 15"
    by auto
next
  assume "AX25Address_decode d = Inr (Some a)"
  then show "isascii (callsign a)"
    by (rule AX25Address_decode_ascii)
next
  from AX25Address_decode_total[of d] show "AX25Address_decode d \<noteq> Inl e"
    by auto
next
  show "AX25Address_init cs ss = Inl e \<longleftrightarrow>
        e = ValueError \<and> (6 < length (upper cs) \<or> ss < 0 \<or> 15 < ss)"
    by (simp add: AX25Address_init_Inl)
qed

theorem AX25Address_invariant_witness:
  "isascii ''n0call'' \<and> isascii ''n0call-3'' \<and> isascii ''toolong'' \<and>
   AX25Address_init ''n0call'' 3 = Inr \<lparr>callsign = ''N0CALL'', ssid = 3\<rparr> \<and>
   AX25Address_parse ''n0call-3'' = Inr \<lparr>callsign = ''N0CALL'', ssid = 3\<rparr> \<and>
   AX25Address_decode [0x9C, 0x60, 0x86, 0x82, 0x98, 0x98, 0x66]
     = Inr (Some \<lparr>callsign = ''N0CALL'', ssid = 3\<rparr>) \<and>
   length (callsign \<lparr>callsign = ''N0CALL'', ssid = 3\<rparr>) \<le> 6 \<and>
   ssid \<lparr>callsign = ''N0CALL'', ssid = 3\<rparr> \<le> 15 \<and>
   AX25Address_init ''toolong'' 0 = Inl ValueError \<and>
   AX25Address_init ''n0call'' 16 = Inl ValueError"
proof -
  let ?a = "\<lparr>callsign = ''N0CALL'', ssid = 3\<rparr>"
  have h1: "AX25Address_init ''n0call'' 3 = Inr ?a"
    by (simp add: AX25Address_init_def upper_def upper_char_def is_lower_char_def char_eval)
  have h2: "AX25Address_parse ''n0call-3'' = Inr ?a"
    by (simp add: AX25Address_parse_def split1_def int_of_str_def strip_def is_space_def
        parse_nat_def is_digit_def digit_val_def AX25Address_init_def upper_def upper_char_def
        is_lower_char_def char_eval)
  have h3: "AX25Address_decode [0x9C, 0x60, 0x86, 0x82, 0x98, 0x98, 0x66] = Inr (Some ?a)"
    by (simp add: AX25Address_decode_def AX25Address_init_def upper_def upper_char_def
        is_lower_char_def char_eval)
  have i1: "isascii ''n0call''" "isascii ''n0call-3''" "isascii ''toolong''"
    by (simp_all add: isascii_def is_ascii_char_def)
  from AX25Address_invariant[of "''n0call''" 3 ?a "''n0call-3''"
      "[0x9C, 0x60, 0x86, 0x82, 0x98, 0x98, 0x66]" ValueError] h1 h2 h3 i1
  have a: "length (callsign ?a) \<le> 6 \<and> ssid ?a \<le> 15 \<and> isascii (callsign ?a)"
    by blast
  from AX25Address_invariant[of "''toolong''" 0 ?a "[]" "[]" ValueError] i1
  have b: "AX25Address_init ''toolong'' 0 = Inl ValueError"
    by simp
  from AX25Address_invariant[of "''n0call''" 16 ?a "[]" "[]" ValueError] i1
  have c: "AX25Address_init ''n0call'' 16 = Inl ValueError"
    by simp
  from h1 h2 h3 a b c i1 show ?thesis
    by blast
qed

text \<open>
  The claim as the specification words it fails: the constructor accepts the empty call
  sign and one with characters that are no letters or digits, and \<open>decode\<close> returns the
  empty call sign for six padding bytes.
\<close>

theorem AX25Address_counterexample:
  "AX25Address_init [] 0 = Inr \<lparr>callsign = [], ssid = 0\<rparr> \<and>
   AX25Address_init ''a-b!'' 0 = Inr \<lparr>callsign = ''A-B!'', ssid = 0\<rparr> \<and>
   AX25Address_decode [0x40, 0x40, 0x40, 0x40, 0x40, 0x40, 0x60]
     = Inr (Some \<lparr>callsign = [], ssid = 0\<rparr>)"
  by (simp add: AX25Address_decode_def AX25Address_init_def upper_def upper_char_def
      is_lower_char_def char_eval)

section \<open>Base64 of the Python runtime\<close>

text \<open>
  \<open>str.encode('utf-8')\<close> and \<open>bytes.decode('utf-8')\<close> between a text and its
  bytes. Bytes that are not well-formed UTF-8, on which \<open>decode\<close> raises, are outside
  the model.
\<close>

definition encode_utf8 :: "string \<Rightarrow> byte list" where
  "encode_utf8 s = map of_char s"

definition decode_utf8 :: "byte list \<Rightarrow> string" where
  "decode_utf8 d = map (\<lambda>b. char_of (unat b)) d"

definition b64_alphabet :: string where
  "b64_alphabet = ''ABCDEFGHIJKLMNOPQRSTUVWXYZabcdefghijklmnopqrstuvwxyz0123456789+/''"

definition b64_char :: "byte \<Rightarrow> char" where
  "b64_char v = b64_alphabet ! unat v"

fun index_of :: "'a \<Rightarrow> 'a list \<Rightarrow> nat option" where
  "index_of x [] = None"
| "index_of x (y # ys) = (if x = y then Some 0 else map_option Suc (index_of x ys))"

definition b64_index :: "char \<Rightarrow> byte option" where
  "b64_index c = map_option of_nat (index_of c b64_alphabet)"

text \<open>\<open>base64.b64encode\<close>, as text.\<close>

fun b64encode :: "byte list \<Rightarrow> string" where
  "b64encode [] = []"
| "b64encode [a] =
     [b64_char (drop_bit 2 a), b64_char (push_bit 4 (a AND 3)), CHR ''='', CHR ''='']"
| "b64encode [a, b] =
     [b64_char (drop_bit 2 a), b64_char (push_bit 4 (a AND 3) OR drop_bit 4 b),
      b64_char (push_bit 2 (b AND 15)), CHR ''='']"
| "b64encode (a # b # c # r) =
     [b64_char (drop_bit 2 a), b64_char (push_bit 4 (a AND 3) OR drop_bit 4 b),
      b64_char (push_bit 2 (b AND 15) OR drop_bit 6 c), b64_char (c AND 63)] @ b64encode r"

text \<open>
  The loop of \<open>binascii.a2b_base64\<close> in its default, non-strict mode, which
  \<open>base64.b64decode\<close> calls: characters outside the alphabet are skipped, a padding
  character ends the data once the quad is complete with it, and data that end inside a
  quad raise \<open>binascii.Error\<close> (a \<open>ValueError\<close>), the value \<open>None\<close> here. The
  state is the position in the quad, the bits left over, the padding characters seen and
  the bytes produced.
\<close>

fun a2b_base64 :: "string \<Rightarrow> nat \<Rightarrow> byte \<Rightarrow> nat \<Rightarrow> byte list \<Rightarrow> byte list option" where
  "a2b_base64 [] quad_pos leftchar pads out = (if quad_pos \<noteq> 0 then None else Some out)"
| "a2b_base64 (c # cs) quad_pos leftchar pads out =
     (if c = CHR ''='' then
        (if quad_pos \<ge> 2 \<and> quad_pos + (pads + 1) \<ge> 4 then Some out
         else a2b_base64 cs quad_pos leftchar (if quad_pos \<ge> 2 then pads + 1 else pads) out)
      else
        (case b64_index c of
           None \<Rightarrow> a2b_base64 cs quad_pos leftchar pads out
         | Some this_ch \<Rightarrow>
             if quad_pos = 0 then a2b_base64 cs 1 this_ch 0 out
             else if quad_pos = 1 then
               a2b_base64 cs 2 (this_ch AND 0x0F) 0
                 (out @ [push_bit 2 leftchar OR drop_bit 4 this_ch])
             else if quad_pos = 2 then
               a2b_base64 cs 3 (this_ch AND 0x03) 0
                 (out @ [push_bit 4 leftchar OR drop_bit 2 this_ch])
             else
               a2b_base64 cs 0 0 0 (out @ [push_bit 6 leftchar OR this_ch])))"

text \<open>\<open>base64.b64decode\<close> of a text: a character outside ASCII raises
  \<open>ValueError\<close>.\<close>

definition b64decode :: "string \<Rightarrow> byte list option" where
  "b64decode s = (if isascii s then a2b_base64 s 0 0 0 [] else None)"

section \<open>RFMP frames (protocol/frames.py)\<close>

datatype FrameType = MSG_type | FRAG_type | SYNC_type | REQ_type

fun FrameType_value :: "FrameType \<Rightarrow> string" where
  "FrameType_value MSG_type = ''MSG''"
| "FrameType_value FRAG_type = ''FRAG''"
| "FrameType_value SYNC_type = ''SYNC''"
| "FrameType_value REQ_type = ''REQ''"

text \<open>The enum constructor \<open>FrameType(s)\<close>; \<open>None\<close> is its \<open>ValueError\<close>.\<close>

definition FrameType_of :: "string \<Rightarrow> FrameType option" where
  "FrameType_of s =
     (if s = ''MSG'' then Some MSG_type
      else if s = ''FRAG'' then Some FRAG_type
      else if s = ''SYNC'' then Some SYNC_type
      else if s = ''REQ'' then Some REQ_type
      else None)"

record MSG =
  msg_id :: string
  from_node :: string
  timestamp :: string
  channel :: string
  priority :: int
  reply_to :: "string option"
  body :: string

record FRAG =
  message_id :: string
  idx :: int
  total :: int
  frag_data :: "byte list"

record SYNC =
  sync_from_node :: string
  bloom_filters :: "byte list list"
  window_index :: int

record REQ =
  req_from_node :: string
  req_message_id :: string
  missing_fragments :: "int list option"

datatype Frame = MSG_frame MSG | FRAG_frame FRAG | SYNC_frame SYNC | REQ_frame REQ

text \<open>
  The constructors with their \<open>__post_init__\<close> checks. The length of the id is counted
  in bytes here, in characters by Python; the two agree on ASCII ids. The check of the
  channel, \<open>not islower() or not isascii()\<close>, depends on ASCII letters only, since a
  channel with a character outside ASCII is refused whatever \<open>islower\<close> returns.
\<close>

definition MSG_init ::
  "string \<Rightarrow> string \<Rightarrow> string \<Rightarrow> string \<Rightarrow> int \<Rightarrow> string option \<Rightarrow> string \<Rightarrow> error + MSG" where
  "MSG_init i f t c p r b =
     (if \<not> (8 \<le> length i \<and> length i \<le> 12) then Inl ValueError
      else if \<not> (0 \<le> p \<and> p \<le> 3) then Inl ValueError
      else if \<not> islower c \<or> \<not> isascii c then Inl ValueError
      else Inr \<lparr>msg_id = i, from_node = f, timestamp = t, channel = c, priority = p,
                reply_to = r, body = b\<rparr>)"

definition FRAG_init :: "string \<Rightarrow> int \<Rightarrow> int \<Rightarrow> byte list \<Rightarrow> error + FRAG" where
  "FRAG_init m i t d =
     (if i < 0 \<or> i \<ge> t then Inl ValueError
      else Inr \<lparr>message_id = m, idx = i, total = t, frag_data = d\<rparr>)"

definition SYNC_init :: "string \<Rightarrow> byte list list \<Rightarrow> int \<Rightarrow> error + SYNC" where
  "SYNC_init f bfs w =
     (if length bfs \<noteq> 3 then Inl ValueError
      else if \<not> (0 \<le> w \<and> w \<le> 2) then Inl ValueError
      else Inr \<lparr>sync_from_node = f, bloom_filters = bfs, window_index = w\<rparr>)"

definition REQ_init :: "string \<Rightarrow> string \<Rightarrow> int list option \<Rightarrow> error + REQ" where
  "REQ_init f m ms = Inr \<lparr>req_from_node = f, req_message_id = m, missing_fragments = ms\<rparr>"

text \<open>Sequencing of steps that may raise.\<close>

definition bind_err :: "error + 'a \<Rightarrow> ('a \<Rightarrow> error + 'b) \<Rightarrow> error + 'b" where
  "bind_err x f = (case x of Inl e \<Rightarrow> Inl e | Inr v \<Rightarrow> f v)"

text \<open>\<open>d[k]\<close> of a dict, \<open>xs[i]\<close> of a list, \<open>int(s)\<close> and \<open>b64decode(s)\<close> with their
  exceptions.\<close>

definition getitem :: "(string \<rightharpoonup> string) \<Rightarrow> string \<Rightarrow> error + string" where
  "getitem d k = (case d k of None \<Rightarrow> Inl KeyError | Some v \<Rightarrow> Inr v)"

definition list_item :: "'a list \<Rightarrow> nat \<Rightarrow> error + 'a" where
  "list_item xs i = (if i < length xs then Inr (xs ! i) else Inl IndexError)"

definition int_str :: "string \<Rightarrow> error + int" where
  "int_str s = (case int_of_str s of None \<Rightarrow> Inl ValueError | Some n \<Rightarrow> Inr n)"

definition b64decode_err :: "string \<Rightarrow> error + byte list" where
  "b64decode_err s = (case b64decode s of None \<Rightarrow> Inl ValueError | Some d \<Rightarrow> Inr d)"

text \<open>\<open>[int(i) for i in parts]\<close>.\<close>

fun ints_of :: "string list \<Rightarrow> error + int list" where
  "ints_of [] = Inr []"
| "ints_of (p # ps) =
     bind_err (int_str p) (\<lambda>n. bind_err (ints_of ps) (\<lambda>ns. Inr (n # ns)))"

text \<open>\<open>to_dict\<close> of each frame class: the items of the dict in insertion order.\<close>

definition MSG_to_dict :: "MSG \<Rightarrow> (string \<times> string) list" where
  "MSG_to_dict m =
     [(''id'', msg_id m), (''from'', from_node m), (''time'', timestamp m),
      (''chan'', channel m), (''prio'', str_int (priority m)),
      (''reply'', (case reply_to m of None \<Rightarrow> ''-'' | Some r \<Rightarrow> if r = [] then ''-'' else r)),
      (''body'', body m)]"

definition FRAG_to_dict :: "FRAG \<Rightarrow> (string \<times> string) list" where
  "FRAG_to_dict f =
     [(''msgid'', message_id f), (''idx'', str_int (idx f)), (''total'', str_int (total f)),
      (''data'', b64encode (frag_data f))]"

definition SYNC_to_dict :: "SYNC \<Rightarrow> error + (string \<times> string) list" where
  "SYNC_to_dict s =
     bind_err (list_item (bloom_filters s) 0) (\<lambda>bf0.
     bind_err (list_item (bloom_filters s) 1) (\<lambda>bf1.
     bind_err (list_item (bloom_filters s) 2) (\<lambda>bf2.
       Inr [(''from'', sync_from_node s), (''bf0'', b64encode bf0), (''bf1'', b64encode bf1),
            (''bf2'', b64encode bf2), (''win'', str_int (window_index s))])))"

definition REQ_to_dict :: "REQ \<Rightarrow> (string \<times> string) list" where
  "REQ_to_dict r =
     [(''from'', req_from_node r), (''msgid'', req_message_id r)] @
     (case missing_fragments r of
        None \<Rightarrow> []
      | Some ms \<Rightarrow> if ms = [] then [] else [(''missing'', join (CHR '','') (map str_int ms))])"

text \<open>\<open>from_dict\<close> of each frame class; the arguments are evaluated in the order of the
  source, so the first failing one gives the exception.\<close>

definition MSG_from_dict :: "(string \<rightharpoonup> string) \<Rightarrow> error + MSG" where
  "MSG_from_dict d =
     bind_err (getitem d ''id'') (\<lambda>i.
     bind_err (getitem d ''from'') (\<lambda>f.
     bind_err (getitem d ''time'') (\<lambda>t.
     bind_err (getitem d ''chan'') (\<lambda>c.
     bind_err (getitem d ''prio'') (\<lambda>ps.
     bind_err (int_str ps) (\<lambda>p.
     bind_err (getitem d ''reply'') (\<lambda>r.
     bind_err (getitem d ''body'') (\<lambda>b.
       MSG_init i f t c p (if r \<noteq> ''-'' then Some r else None) b))))))))"

definition FRAG_from_dict :: "(string \<rightharpoonup> string) \<Rightarrow> error + FRAG" where
  "FRAG_from_dict d =
     bind_err (getitem d ''msgid'') (\<lambda>m.
     bind_err (getitem d ''idx'') (\<lambda>is.
     bind_err (int_str is) (\<lambda>i.
     bind_err (getitem d ''total'') (\<lambda>ts.
     bind_err (int_str ts) (\<lambda>t.
     bind_err (getitem d ''data'') (\<lambda>ds.
     bind_err (b64decode_err ds) (\<lambda>dd.
       FRAG_init m i t dd)))))))"

definition SYNC_from_dict :: "(string \<rightharpoonup> string) \<Rightarrow> error + SYNC" where
  "SYNC_from_dict d =
     bind_err (getitem d ''from'') (\<lambda>f.
     bind_err (getitem d ''bf0'') (\<lambda>s0.
     bind_err (b64decode_err s0) (\<lambda>bf0.
     bind_err (getitem d ''bf1'') (\<lambda>s1.
     bind_err (b64decode_err s1) (\<lambda>bf1.
     bind_err (getitem d ''bf2'') (\<lambda>s2.
     bind_err (b64decode_err s2) (\<lambda>bf2.
     bind_err (getitem d ''win'') (\<lambda>ws.
     bind_err (int_str ws) (\<lambda>w.
       SYNC_init f [bf0, bf1, bf2] w)))))))))"

definition REQ_from_dict :: "(string \<rightharpoonup> string) \<Rightarrow> error + REQ" where
  "REQ_from_dict d =
     bind_err (case d ''missing'' of
                 None \<Rightarrow> Inr None
               | Some ms \<Rightarrow> bind_err (ints_of (split (CHR '','') ms)) (\<lambda>ns. Inr (Some ns)))
       (\<lambda>missing.
     bind_err (getitem d ''from'') (\<lambda>f.
     bind_err (getitem d ''msgid'') (\<lambda>m.
       REQ_init f m missing)))"

section \<open>RFMP wire format (protocol/parser.py)\<close>

fun frame_type :: "Frame \<Rightarrow> FrameType" where
  "frame_type (MSG_frame m) = MSG_type"
| "frame_type (FRAG_frame f) = FRAG_type"
| "frame_type (SYNC_frame s) = SYNC_type"
| "frame_type (REQ_frame r) = REQ_type"

fun to_dict :: "Frame \<Rightarrow> error + (string \<times> string) list" where
  "to_dict (MSG_frame m) = Inr (MSG_to_dict m)"
| "to_dict (FRAG_frame f) = Inr (FRAG_to_dict f)"
| "to_dict (SYNC_frame s) = SYNC_to_dict s"
| "to_dict (REQ_frame r) = Inr (REQ_to_dict r)"

text \<open>\<open>FrameParser.encode\<close>.\<close>

definition encode_text :: "FrameType \<Rightarrow> (string \<times> string) list \<Rightarrow> string" where
  "encode_text ft flds =
     join (CHR ''|'') (FrameType_value ft # map (\<lambda>(key, v). key @ ''='' @ v) flds)"

definition FrameParser_encode :: "Frame \<Rightarrow> error + byte list" where
  "FrameParser_encode frame =
     bind_err (to_dict frame) (\<lambda>flds. Inr (encode_utf8 (encode_text (frame_type frame) flds)))"

text \<open>The loop of \<open>FrameParser.decode\<close> that fills the dict of fields: a part without
  \<open>=\<close> is skipped, a later key replaces an earlier one.\<close>

definition parse_fields :: "string list \<Rightarrow> (string \<rightharpoonup> string)" where
  "parse_fields parts =
     fold (\<lambda>part flds.
             if CHR ''='' \<in> set part
             then flds(fst (split1 (CHR ''='') part) \<mapsto> snd (split1 (CHR ''='') part))
             else flds)
       parts Map.empty"

text \<open>\<open>FrameParser.decode\<close>: every exception inside is caught and gives \<open>None\<close>.\<close>

definition catch :: "error + 'a \<Rightarrow> 'a option" where
  "catch x = (case x of Inl e \<Rightarrow> None | Inr v \<Rightarrow> Some v)"

definition FrameParser_decode :: "byte list \<Rightarrow> Frame option" where
  "FrameParser_decode d =
     (let parts = split (CHR ''|'') (decode_utf8 d)
      in if length parts < 2 then None
         else
           (case FrameType_of (hd parts) of
              None \<Rightarrow> None
            | Some ft \<Rightarrow>
                let flds = parse_fields (tl parts)
                in (case ft of
                      MSG_type \<Rightarrow> map_option MSG_frame (catch (MSG_from_dict flds))
                    | FRAG_type \<Rightarrow> map_option FRAG_frame (catch (FRAG_from_dict flds))
                    | SYNC_type \<Rightarrow> map_option SYNC_frame (catch (SYNC_from_dict flds))
                    | REQ_type \<Rightarrow> map_option REQ_frame (catch (REQ_from_dict flds)))))"

text \<open>
  The conditions of the round trip. A frame is \<open>valid_frame\<close> when its constructor
  accepts its fields. It is \<open>wire_safe\<close> when no text field holds the delimiter
  \<open>|\<close>, a present \<open>reply_to\<close> is neither empty nor the sentinel \<open>-\<close>, and a
  present list of missing fragments is not empty: the wire format has no escaping, and
  writes an absent value and these values alike.
\<close>

definition no_pipe :: "string \<Rightarrow> bool" where
  "no_pipe s = (CHR ''|'' \<notin> set s)"

fun valid_frame :: "Frame \<Rightarrow> bool" where
  "valid_frame (MSG_frame m) =
     (MSG_init (msg_id m) (from_node m) (timestamp m) (channel m) (priority m) (reply_to m)
        (body m) = Inr m)"
| "valid_frame (FRAG_frame f) =
     (FRAG_init (message_id f) (idx f) (total f) (frag_data f) = Inr f)"
| "valid_frame (SYNC_frame s) =
     (SYNC_init (sync_from_node s) (bloom_filters s) (window_index s) = Inr s)"
| "valid_frame (REQ_frame r) =
     (REQ_init (req_from_node r) (req_message_id r) (missing_fragments r) = Inr r)"

fun wire_safe :: "Frame \<Rightarrow> bool" where
  "wire_safe (MSG_frame m) =
     (no_pipe (msg_id m) \<and> no_pipe (from_node m) \<and> no_pipe (timestamp m) \<and>
      no_pipe (channel m) \<and> no_pipe (body m) \<and>
      (case reply_to m of None \<Rightarrow> True | Some r \<Rightarrow> no_pipe r \<and> r \<noteq> [] \<and> r \<noteq> ''-''))"
| "wire_safe (FRAG_frame f) = no_pipe (message_id f)"
| "wire_safe (SYNC_frame s) = no_pipe (sync_from_node s)"
| "wire_safe (REQ_frame r) =
     (no_pipe (req_from_node r) \<and> no_pipe (req_message_id r) \<and>
      missing_fragments r \<noteq> Some [])"

section \<open>Fragmentation and reassembly (protocol/fragmentation.py)\<close>

text \<open>
  \<open>math.ceil(a / b)\<close> for integers with \<open>b \<noteq> 0\<close>. The quotient is a float in
  Python; it is exact for the lengths a frame can have (far below \<open>2^53\<close>), and the
  model takes the exact ceiling.
\<close>

definition ceil_div :: "int \<Rightarrow> int \<Rightarrow> int" where
  "ceil_div a b = - ((- a) div b)"

text \<open>\<open>xs[start:stop]\<close> for indices that are not negative.\<close>

definition slice :: "'a list \<Rightarrow> int \<Rightarrow> int \<Rightarrow> 'a list" where
  "slice xs start stop = take (nat stop - nat start) (drop (nat start) xs)"

text \<open>Running a list of steps in order; the first exception ends the run.\<close>

fun collect_err :: "(error + 'a) list \<Rightarrow> error + 'a list" where
  "collect_err [] = Inr []"
| "collect_err (x # xs) = bind_err x (\<lambda>v. bind_err (collect_err xs) (\<lambda>vs. Inr (v # vs)))"

text \<open>\<open>range(n)\<close>.\<close>

definition range :: "int \<Rightarrow> int list" where
  "range n = map int [0..<nat n]"

text \<open>\<open>Fragmenter.fragment_message\<close> of a fragmenter with the given threshold.\<close>

definition fragment_message :: "int \<Rightarrow> MSG \<Rightarrow> error + FRAG list" where
  "fragment_message fragment_threshold msg =
     bind_err (FrameParser_encode (MSG_frame msg)) (\<lambda>encoded.
       if int (length encoded) \<le> fragment_threshold then Inr []
       else
         let fragment_size = fragment_threshold - 50
         in if fragment_size = 0 then Inl ZeroDivisionError
            else
              let total_fragments = ceil_div (int (length encoded)) fragment_size
              in collect_err
                   (map (\<lambda>i. let start = i * fragment_size;
                                 stop = min (start + fragment_size) (int (length encoded))
                             in FRAG_init (msg_id msg) i total_fragments (slice encoded start stop))
                      (range total_fragments)))"

text \<open>
  \<open>FragmentCollector\<close>. The dict of fragments is the list of its items in insertion
  order; its keys are distinct, since a fragment is stored only when its index is absent.
\<close>

record FragmentCollector =
  fc_message_id :: string
  total_fragments :: int
  fragments :: "(int \<times> byte list) list"
  first_seen :: int

definition FragmentCollector_add_fragment ::
  "FragmentCollector \<Rightarrow> FRAG \<Rightarrow> error + (bool \<times> FragmentCollector)" where
  "FragmentCollector_add_fragment c fragment =
     (if message_id fragment \<noteq> fc_message_id c then Inl ValueError
      else if idx fragment \<in> set (map fst (fragments c)) then Inr (False, c)
      else Inr (True, c\<lparr>fragments := fragments c @ [(idx fragment, frag_data fragment)]\<rparr>))"

definition is_complete :: "FragmentCollector \<Rightarrow> bool" where
  "is_complete c = (int (length (fragments c)) = total_fragments c)"

text \<open>\<open>FragmentCollector.reassemble\<close>; \<open>self.fragments[i]\<close> raises \<open>KeyError\<close> for
  an index that is absent.\<close>

definition reassemble :: "FragmentCollector \<Rightarrow> error + byte list option" where
  "reassemble c =
     (if \<not> is_complete c then Inr None
      else
        bind_err
          (collect_err
             (map (\<lambda>i. case map_of (fragments c) i of None \<Rightarrow> Inl KeyError | Some d \<Rightarrow> Inr d)
                (range (total_fragments c))))
          (\<lambda>parts. Inr (Some (concat parts))))"

record Fragmenter =
  fragment_threshold :: int
  collectors :: "string \<rightharpoonup> FragmentCollector"

text \<open>
  \<open>Fragmenter.add_fragment\<close> at time \<open>now\<close>. The result pairs the returned tuple, or
  the exception, with the fragmenter afterwards: the collector is changed in place
  before \<open>reassemble\<close> can raise. Reassembled data that are empty are not decoded
  (\<open>if data\<close>), and the collector is deleted only when they decode to a MSG.
\<close>

definition Fragmenter_add_fragment ::
  "int \<Rightarrow> Fragmenter \<Rightarrow> FRAG \<Rightarrow> (error + bool \<times> MSG option) \<times> Fragmenter" where
  "Fragmenter_add_fragment now fr fragment =
     (let collector =
            (case collectors fr (message_id fragment) of
               None \<Rightarrow> \<lparr>fc_message_id = message_id fragment, total_fragments = total fragment,
                         fragments = [], first_seen = now\<rparr>
             | Some c \<Rightarrow> c)
      in case FragmentCollector_add_fragment collector fragment of
           Inl e \<Rightarrow> (Inl e, fr\<lparr>collectors := (collectors fr)(message_id fragment \<mapsto> collector)\<rparr>)
         | Inr (is_new, c) \<Rightarrow>
             let fr1 = fr\<lparr>collectors := (collectors fr)(message_id fragment \<mapsto> c)\<rparr>
             in if is_complete c then
                  (case reassemble c of
                     Inl e \<Rightarrow> (Inl e, fr1)
                   | Inr None \<Rightarrow> (Inr (is_new, None), fr1)
                   | Inr (Some d) \<Rightarrow>
                       if d = [] then (Inr (is_new, None), fr1)
                       else
                         (case FrameParser_decode d of
                            Some (MSG_frame m) \<Rightarrow>
                              (Inr (is_new, Some m),
                               fr\<lparr>collectors := (collectors fr)(message_id fragment := None)\<rparr>)
                          | _ \<Rightarrow> (Inr (is_new, None), fr1)))
                else (Inr (is_new, None), fr1))"

section \<open>Properties of the runtime text functions\<close>

lemma decode_encode_utf8: "decode_utf8 (encode_utf8 s) = s"
proof -
  have "char_of (unat (of_char c :: byte)) = c" for c
  proof -
    have "(of_char c :: byte) = of_nat (of_char c)"
      by (simp only: of_nat_of_char)
    then have "unat (of_char c :: byte) = (of_char c :: nat) mod 256"
      by (simp only: unat_of_nat) simp
    then show ?thesis
      by (simp only: of_char_mod_256 char_of_char)
  qed
  then show ?thesis
    by (simp add: decode_utf8_def encode_utf8_def comp_def)
qed

lemma split_no_sep: "sep \<notin> set p \<Longrightarrow> split sep p = [p]"
  by (induction p) auto

lemma split_append_sep: "sep \<notin> set p \<Longrightarrow> split sep (p @ sep # r) = p # split sep r"
  by (induction p) auto

lemma split_join:
  "ps \<noteq> [] \<Longrightarrow> \<forall>p \<in> set ps. sep \<notin> set p \<Longrightarrow> split sep (join sep ps) = ps"
proof (induction sep ps rule: join.induct)
  case (1 sep)
  then show ?case by simp
next
  case (2 sep p)
  then show ?case by (simp add: split_no_sep)
next
  case (3 sep p q ps)
  then show ?case by (simp add: split_append_sep)
qed

lemma split1_key: "sep \<notin> set k \<Longrightarrow> split1 sep (k @ sep # v) = (k, v)"
  by (induction k) (auto simp: split1_def)

lemma is_digit_digit_char: "d < 10 \<Longrightarrow> is_digit (digit_char d) \<and> digit_val (digit_char d) = d"
  by (simp add: is_digit_def digit_char_def digit_val_def)

lemma parse_digits_all:
  "list_all is_digit ds \<Longrightarrow> parse_digits ds acc = Some (foldl (\<lambda>a c. 10 * a + digit_val c) acc ds)"
  by (induction ds arbitrary: acc) auto

lemma digits_all: "list_all is_digit (digits n)"
  by (induction n rule: digits.induct) (subst digits.simps, simp add: is_digit_digit_char)

lemma digits_nonempty: "digits n \<noteq> []"
  by (subst digits.simps) simp

lemma digits_value: "foldl (\<lambda>a c. 10 * a + digit_val c) 0 (digits n) = n"
  by (induction n rule: digits.induct) (subst digits.simps, simp add: is_digit_digit_char)

lemma parse_nat_digits: "parse_nat (digits n) = Some n"
proof -
  obtain c cs where d: "digits n = c # cs"
    using digits_nonempty[of n] by (cases "digits n") auto
  with digits_all[of n] have c: "is_digit c" and cs: "list_all is_digit cs"
    by simp_all
  have "parse_digits cs (digit_val c) = Some (foldl (\<lambda>a c. 10 * a + digit_val c) (digit_val c) cs)"
    by (rule parse_digits_all[OF cs])
  also have "foldl (\<lambda>a c. 10 * a + digit_val c) (digit_val c) cs
             = foldl (\<lambda>a c. 10 * a + digit_val c) 0 (digits n)"
    by (simp add: d)
  also have "\<dots> = n"
    by (rule digits_value)
  finally show ?thesis
    using c by (simp add: parse_nat_def d)
qed

lemma digit_not_space: "is_digit c \<Longrightarrow> \<not> is_space c"
  by (auto simp: is_digit_def is_space_def Let_def)

lemma strip_digits_like:
  assumes "s \<noteq> []" "\<not> is_space (hd s)" "\<not> is_space (last s)"
  shows "strip s = s"
proof -
  from assms have 1: "dropWhile is_space s = s"
    by (cases s) auto
  from assms have "rev s \<noteq> []" "\<not> is_space (hd (rev s))"
    by (simp_all add: hd_rev)
  then have 2: "dropWhile is_space (rev s) = rev s"
    by (cases "rev s") auto
  show ?thesis by (simp add: strip_def 1 2)
qed

lemma list_all_last: "list_all P xs \<Longrightarrow> xs \<noteq> [] \<Longrightarrow> P (last xs)"
  by (induction xs) auto

lemma int_of_str_str_int: "int_of_str (str_int n) = Some n"
proof (cases "n < 0")
  case True
  let ?s = "CHR ''-'' # digits (nat (- n))"
  have l: "\<not> is_space (last ?s)"
    using list_all_last[OF digits_all digits_nonempty, of "nat (- n)"] digits_nonempty[of "nat (-n)"]
    by (simp add: digit_not_space)
  have "\<not> is_space (CHR ''-'')" by (simp add: is_space_def)
  then have "strip ?s = ?s"
    using l by (intro strip_digits_like) simp_all
  then show ?thesis
    using True by (simp add: int_of_str_def str_int_def parse_nat_digits)
next
  case False
  let ?s = "digits (nat n)"
  obtain c cs where d: "?s = c # cs"
    using digits_nonempty[of "nat n"] by (cases ?s) auto
  with digits_all[of "nat n"] have c: "is_digit c" by simp
  have l: "\<not> is_space (last ?s)"
    using list_all_last[OF digits_all digits_nonempty, of "nat n"]
    by (simp add: digit_not_space)
  have "strip ?s = ?s"
    using l c d by (intro strip_digits_like) (simp_all add: digit_not_space)
  moreover have "c \<noteq> CHR ''-''" "c \<noteq> CHR ''+''"
    using c by (auto simp: is_digit_def)
  moreover have "parse_nat (c # cs) = Some (nat n)"
    using parse_nat_digits[of "nat n"] d by simp
  ultimately show ?thesis
    using False d by (simp add: int_of_str_def str_int_def)
qed

lemma str_int_chars: "c \<in> set (str_int n) \<Longrightarrow> is_digit c \<or> c = CHR ''-''"
  using digits_all by (auto simp: str_int_def list_all_iff split: if_splits)

lemma str_int_no_pipe: "CHR ''|'' \<notin> set (str_int n)"
  using str_int_chars[of "CHR ''|''" n] by (auto simp: is_digit_def)

lemma str_int_no_comma: "CHR '','' \<notin> set (str_int n)"
  using str_int_chars[of "CHR '',''" n] by (auto simp: is_digit_def)

lemma ints_of_map_str_int: "ints_of (map str_int ms) = Inr ms"
  by (induction ms) (simp_all add: bind_err_def int_str_def int_of_str_str_int)

lemma join_no_sep:
  "\<forall>p \<in> set ps. c \<notin> set p \<Longrightarrow> c \<noteq> sep \<Longrightarrow> c \<notin> set (join sep ps)"
  by (induction sep ps rule: join.induct) auto

section \<open>Base64 round trip\<close>

lemma index_of_nth: "distinct xs \<Longrightarrow> n < length xs \<Longrightarrow> index_of (xs ! n) xs = Some n"
proof (induction xs arbitrary: n)
  case Nil
  then show ?case by simp
next
  case (Cons x xs)
  show ?case
  proof (cases n)
    case 0
    then show ?thesis by simp
  next
    case (Suc m)
    with Cons.prems have "xs ! m \<in> set xs" by simp
    with Cons.prems have "xs ! m \<noteq> x" by auto
    with Cons Suc show ?thesis by simp
  qed
qed

lemma b64_alphabet_distinct: "distinct b64_alphabet"
  by (simp add: b64_alphabet_def)

lemma b64_alphabet_length: "length b64_alphabet = 64"
  by (simp add: b64_alphabet_def)

lemma sextet_unat: "(x :: byte) AND 63 = x \<Longrightarrow> unat x < 64"
proof -
  assume a: "x AND 63 = x"
  have "x AND 63 \<le> 63" by (rule word_and_le1)
  with a have "x \<le> 63" by simp
  then have "unat x \<le> unat (63 :: byte)" by (simp only: word_le_nat_alt)
  then show ?thesis by simp
qed

lemma b64_index_char: "(x :: byte) AND 63 = x \<Longrightarrow> b64_index (b64_char x) = Some x"
  using index_of_nth[OF b64_alphabet_distinct, of "unat x"] sextet_unat[of x]
  by (simp add: b64_index_def b64_char_def b64_alphabet_length)

lemma b64_char_in: "(x :: byte) AND 63 = x \<Longrightarrow> b64_char x \<in> set b64_alphabet"
  using sextet_unat[of x] by (simp add: b64_char_def b64_alphabet_length)

lemma b64_alphabet_chars:
  "c \<in> set b64_alphabet \<Longrightarrow> c \<noteq> CHR ''='' \<and> c \<noteq> CHR ''|'' \<and> is_ascii_char c"
  by (auto simp: b64_alphabet_def is_ascii_char_def)

lemma masks: "(63 :: byte) = mask 6" "(15 :: byte) = mask 4" "(3 :: byte) = mask 2"
  by (simp_all add: mask_eq_exp_minus_1)

lemma bit_byte_le: "bit (a :: byte) n \<Longrightarrow> n < 8"
  using bit_imp_le_length[of a n] by simp

lemma byte_eqI:
  assumes "\<And>n. n \<in> {0, 1, 2, 3, 4, 5, 6, 7 :: nat} \<Longrightarrow> bit (a :: byte) n = bit (b :: byte) n"
  shows "a = b"
proof (rule bit_word_eqI)
  fix n :: nat
  assume "n < LENGTH(8)"
  then have "n \<in> {0, 1, 2, 3, 4, 5, 6, 7 :: nat}"
    by simp presburger
  then show "bit a n = bit b n"
    by (rule assms)
qed

lemma sx1: "drop_bit 2 (a :: byte) AND 63 = drop_bit 2 a"
  unfolding masks by (rule bit_word_eqI) (auto simp: bit_simps dest: bit_byte_le)

lemma sx2: "(push_bit 4 ((a :: byte) AND 3) OR drop_bit 4 (b :: byte)) AND 63
             = push_bit 4 (a AND 3) OR drop_bit 4 b"
  unfolding masks by (rule bit_word_eqI) (auto simp: bit_simps dest: bit_byte_le)

lemma sx3: "(push_bit 2 ((b :: byte) AND 15) OR drop_bit 6 (c :: byte)) AND 63
             = push_bit 2 (b AND 15) OR drop_bit 6 c"
  unfolding masks by (rule bit_word_eqI) (auto simp: bit_simps dest: bit_byte_le)

lemma sx4: "((c :: byte) AND 63) AND 63 = c AND 63"
  by (simp add: and.assoc)

lemma sx5: "push_bit 4 ((a :: byte) AND 3) AND 63 = push_bit 4 (a AND 3)"
  unfolding masks by (rule bit_word_eqI) (auto simp: bit_simps dest: bit_byte_le)

lemma sx6: "push_bit 2 ((b :: byte) AND 15) AND 63 = push_bit 2 (b AND 15)"
  unfolding masks by (rule bit_word_eqI) (auto simp: bit_simps dest: bit_byte_le)

lemma sub_add:
  "Suc (Suc (n - 2)) = (if 2 \<le> n then n else 2)"
  "4 + (n - 4) = (if 4 \<le> n then n else 4)"
  "6 + (n - 6) = (if 6 \<le> n then n else 6)"
  by (simp_all, arith)

lemma by1: "push_bit 2 (drop_bit 2 (a :: byte)) OR drop_bit 4 (push_bit 4 (a AND 3) OR drop_bit 4 (b :: byte)) = a"
  unfolding masks by (rule bit_word_eqI) (auto simp: bit_simps sub_add dest: bit_byte_le split: if_splits)

lemma by1': "push_bit 2 (drop_bit 2 (a :: byte)) OR drop_bit 4 (push_bit 4 (a AND 3)) = a"
  unfolding masks by (rule bit_word_eqI) (auto simp: bit_simps sub_add dest: bit_byte_le split: if_splits)

lemma by2: "push_bit 4 ((push_bit 4 ((a :: byte) AND 3) OR drop_bit 4 (b :: byte)) AND 15)
              OR drop_bit 2 (push_bit 2 (b AND 15) OR drop_bit 6 (c :: byte)) = b"
  unfolding masks by (rule bit_word_eqI) (auto simp: bit_simps sub_add dest: bit_byte_le split: if_splits)

lemma by2': "push_bit 4 ((push_bit 4 ((a :: byte) AND 3) OR drop_bit 4 (b :: byte)) AND 15)
              OR drop_bit 2 (push_bit 2 (b AND 15)) = b"
  unfolding masks by (rule bit_word_eqI) (auto simp: bit_simps sub_add dest: bit_byte_le split: if_splits)

lemma by3: "push_bit 6 ((push_bit 2 ((b :: byte) AND 15) OR drop_bit 6 (c :: byte)) AND 3) OR (c AND 63) = c"
  unfolding masks by (rule bit_word_eqI) (auto simp: bit_simps sub_add dest: bit_byte_le split: if_splits)

lemma a2b_step:
  assumes "(x :: byte) AND 63 = x"
  shows "a2b_base64 (b64_char x # cs) q l p out =
           (if q = 0 then a2b_base64 cs 1 x 0 out
            else if q = 1 then a2b_base64 cs 2 (x AND 0x0F) 0 (out @ [push_bit 2 l OR drop_bit 4 x])
            else if q = 2 then a2b_base64 cs 3 (x AND 0x03) 0 (out @ [push_bit 4 l OR drop_bit 2 x])
            else a2b_base64 cs 0 0 0 (out @ [push_bit 6 l OR x]))"
  using b64_index_char[OF assms] b64_alphabet_chars[OF b64_char_in[OF assms]]
  by simp

lemma a2b_pair:
  assumes "(x1 :: byte) AND 63 = x1" "(x2 :: byte) AND 63 = x2"
  shows "a2b_base64 (b64_char x1 # b64_char x2 # cs) 0 l p out =
           a2b_base64 cs 2 (x2 AND 0x0F) 0 (out @ [push_bit 2 x1 OR drop_bit 4 x2])"
  by (simp only: a2b_step[OF assms(1)] a2b_step[OF assms(2)]) simp

lemma a2b_triple:
  assumes "(x1 :: byte) AND 63 = x1" "(x2 :: byte) AND 63 = x2" "(x3 :: byte) AND 63 = x3"
  shows "a2b_base64 (b64_char x1 # b64_char x2 # b64_char x3 # cs) 0 l p out =
           a2b_base64 cs 3 (x3 AND 0x03) 0
             (out @ [push_bit 2 x1 OR drop_bit 4 x2, push_bit 4 (x2 AND 0x0F) OR drop_bit 2 x3])"
  by (simp only: a2b_pair[OF assms(1,2)] a2b_step[OF assms(3)]) simp

lemma a2b_quad:
  assumes "(x1 :: byte) AND 63 = x1" "(x2 :: byte) AND 63 = x2" "(x3 :: byte) AND 63 = x3"
    "(x4 :: byte) AND 63 = x4"
  shows "a2b_base64 (b64_char x1 # b64_char x2 # b64_char x3 # b64_char x4 # cs) 0 l p out =
           a2b_base64 cs 0 0 0
             (out @ [push_bit 2 x1 OR drop_bit 4 x2, push_bit 4 (x2 AND 0x0F) OR drop_bit 2 x3,
                     push_bit 6 (x3 AND 0x03) OR x4])"
  by (simp only: a2b_triple[OF assms(1,2,3)] a2b_step[OF assms(4)]) simp

lemma a2b_pad2: "a2b_base64 ''=='' 2 l 0 out = Some out"
  by simp

lemma a2b_pad1: "a2b_base64 ''='' 3 l 0 out = Some out"
  by simp

lemma a2b_b64encode: "a2b_base64 (b64encode bs) 0 l p out = Some (out @ bs)"
proof (induction bs arbitrary: l p out rule: b64encode.induct)
  case 1
  then show ?case by simp
next
  case (2 a)
  have "a2b_base64 (b64encode [a]) 0 l p out =
          a2b_base64 ''=='' 2 (push_bit 4 (a AND 3) AND 0x0F) 0
            (out @ [push_bit 2 (drop_bit 2 a) OR drop_bit 4 (push_bit 4 (a AND 3))])"
    by (simp only: b64encode.simps a2b_pair[OF sx1 sx5])
  also have "\<dots> = Some (out @ [a])"
    by (simp only: by1' a2b_pad2)
  finally show ?case .
next
  case (3 a b)
  have "a2b_base64 (b64encode [a, b]) 0 l p out =
          a2b_base64 ''='' 3 (push_bit 2 (b AND 15) AND 0x03) 0
            (out @ [push_bit 2 (drop_bit 2 a) OR drop_bit 4 (push_bit 4 (a AND 3) OR drop_bit 4 b),
                    push_bit 4 ((push_bit 4 (a AND 3) OR drop_bit 4 b) AND 0x0F)
                      OR drop_bit 2 (push_bit 2 (b AND 15))])"
    by (simp only: b64encode.simps a2b_triple[OF sx1 sx2 sx6])
  also have "\<dots> = Some (out @ [a, b])"
    by (simp only: by1 by2' a2b_pad1)
  finally show ?case .
next
  case (4 a b c r)
  have "a2b_base64 (b64encode (a # b # c # r)) 0 l p out =
          a2b_base64 (b64encode r) 0 0 0
            (out @ [push_bit 2 (drop_bit 2 a) OR drop_bit 4 (push_bit 4 (a AND 3) OR drop_bit 4 b),
                    push_bit 4 ((push_bit 4 (a AND 3) OR drop_bit 4 b) AND 0x0F)
                      OR drop_bit 2 (push_bit 2 (b AND 15) OR drop_bit 6 c),
                    push_bit 6 ((push_bit 2 (b AND 15) OR drop_bit 6 c) AND 0x03) OR (c AND 63)])"
    by (simp only: b64encode.simps append_Cons append_Nil a2b_quad[OF sx1 sx2 sx3 sx4])
  also have "\<dots> = a2b_base64 (b64encode r) 0 0 0 (out @ [a, b, c])"
    by (simp only: by1 by2 by3)
  also have "\<dots> = Some ((out @ [a, b, c]) @ r)"
    by (rule 4)
  finally show ?case by simp
qed

lemma b64encode_chars:
  "list_all (\<lambda>ch. ch \<in> set b64_alphabet \<or> ch = CHR ''='') (b64encode bs)"
  by (induction bs rule: b64encode.induct)
     (simp_all only: b64encode.simps list.pred_inject list_all_append simp_thms
        b64_char_in[OF sx1] b64_char_in[OF sx2] b64_char_in[OF sx3] b64_char_in[OF sx4]
        b64_char_in[OF sx5] b64_char_in[OF sx6])

lemma b64encode_no_pipe: "CHR ''|'' \<notin> set (b64encode bs)"
  using b64encode_chars[of bs] b64_alphabet_chars[of "CHR ''|''"]
  by (auto simp: list_all_iff)

lemma b64encode_isascii: "isascii (b64encode bs)"
  unfolding isascii_def list_all_iff
proof
  fix ch assume "ch \<in> set (b64encode bs)"
  with b64encode_chars[of bs] have "ch \<in> set b64_alphabet \<or> ch = CHR ''=''"
    by (simp add: list_all_iff)
  then show "is_ascii_char ch"
    using b64_alphabet_chars[of ch] by (auto simp: is_ascii_char_def)
qed

lemma b64decode_b64encode: "b64decode (b64encode bs) = Some bs"
  using a2b_b64encode[of bs 0 0 "[]"] by (simp add: b64decode_def b64encode_isascii)

section \<open>Round trip of the RFMP codec\<close>

lemma no_pipe_append [simp]: "no_pipe (a @ b) \<longleftrightarrow> no_pipe a \<and> no_pipe b"
  by (auto simp: no_pipe_def)

lemma no_pipe_Cons [simp]: "no_pipe (c # s) \<longleftrightarrow> c \<noteq> CHR ''|'' \<and> no_pipe s"
  by (auto simp: no_pipe_def)

lemma no_pipe_Nil [simp]: "no_pipe []"
  by (simp add: no_pipe_def)

lemma split_join_pipe:
  "ps \<noteq> [] \<Longrightarrow> list_all no_pipe ps \<Longrightarrow> split (CHR ''|'') (join (CHR ''|'') ps) = ps"
  by (rule split_join) (auto simp: list_all_iff no_pipe_def)

lemma MSG_roundtrip:
  assumes v: "valid_frame (MSG_frame m)" and s: "wire_safe (MSG_frame m)"
  shows "FrameParser_encode (MSG_frame m) = Inr (encode_utf8 (encode_text MSG_type (MSG_to_dict m)))"
    and "FrameParser_decode (encode_utf8 (encode_text MSG_type (MSG_to_dict m))) = Some (MSG_frame m)"
proof -
  show "FrameParser_encode (MSG_frame m) = Inr (encode_utf8 (encode_text MSG_type (MSG_to_dict m)))"
    by (simp add: FrameParser_encode_def bind_err_def)
  define rep where "rep = (case reply_to m of None \<Rightarrow> ''-'' | Some r \<Rightarrow> if r = [] then ''-'' else r)"
  define parts where "parts = [''MSG'', ''id='' @ msg_id m, ''from='' @ from_node m,
      ''time='' @ timestamp m, ''chan='' @ channel m, ''prio='' @ str_int (priority m),
      ''reply='' @ rep, ''body='' @ body m]"
  have rep_np: "no_pipe rep"
    using s by (auto simp: rep_def split: option.splits)
  have rep_back: "(if rep \<noteq> ''-'' then Some rep else None) = reply_to m"
    using s by (auto simp: rep_def split: option.splits)
  have etx: "encode_text MSG_type (MSG_to_dict m) = join (CHR ''|'') parts"
    by (simp add: encode_text_def MSG_to_dict_def parts_def rep_def)
  have np: "list_all no_pipe parts"
    using s rep_np str_int_no_pipe[of "priority m"] by (simp add: parts_def no_pipe_def)
  have sp: "split (CHR ''|'') (join (CHR ''|'') parts) = parts"
    by (rule split_join_pipe[OF _ np]) (simp add: parts_def)
  have pf: "parse_fields (tl parts) = [''id'' \<mapsto> msg_id m, ''from'' \<mapsto> from_node m,
      ''time'' \<mapsto> timestamp m, ''chan'' \<mapsto> channel m, ''prio'' \<mapsto> str_int (priority m),
      ''reply'' \<mapsto> rep, ''body'' \<mapsto> body m]"
    by (simp add: parts_def parse_fields_def split1_def)
  have fd: "MSG_from_dict (parse_fields (tl parts)) = Inr m"
    using v by (simp add: pf MSG_from_dict_def bind_err_def getitem_def int_str_def
        int_of_str_str_int rep_back)
  show "FrameParser_decode (encode_utf8 (encode_text MSG_type (MSG_to_dict m))) = Some (MSG_frame m)"
  proof -
    have h: "hd parts = ''MSG''" and l: "\<not> length parts < 2"
      by (simp_all add: parts_def)
    show ?thesis
      by (simp add: FrameParser_decode_def decode_encode_utf8 etx sp h l fd catch_def
          FrameType_of_def)
  qed
qed

lemma FRAG_roundtrip:
  assumes v: "valid_frame (FRAG_frame f)" and s: "wire_safe (FRAG_frame f)"
  shows "FrameParser_encode (FRAG_frame f) = Inr (encode_utf8 (encode_text FRAG_type (FRAG_to_dict f)))"
    and "FrameParser_decode (encode_utf8 (encode_text FRAG_type (FRAG_to_dict f))) = Some (FRAG_frame f)"
proof -
  show "FrameParser_encode (FRAG_frame f) = Inr (encode_utf8 (encode_text FRAG_type (FRAG_to_dict f)))"
    by (simp add: FrameParser_encode_def bind_err_def)
  define parts where "parts = [''FRAG'', ''msgid='' @ message_id f, ''idx='' @ str_int (idx f),
      ''total='' @ str_int (total f), ''data='' @ b64encode (frag_data f)]"
  have etx: "encode_text FRAG_type (FRAG_to_dict f) = join (CHR ''|'') parts"
    by (simp add: encode_text_def FRAG_to_dict_def parts_def)
  have np: "list_all no_pipe parts"
    using s str_int_no_pipe[of "idx f"] str_int_no_pipe[of "total f"]
      b64encode_no_pipe[of "frag_data f"]
    by (simp add: parts_def no_pipe_def)
  have sp: "split (CHR ''|'') (join (CHR ''|'') parts) = parts"
    by (rule split_join_pipe[OF _ np]) (simp add: parts_def)
  have pf: "parse_fields (tl parts) = [''msgid'' \<mapsto> message_id f, ''idx'' \<mapsto> str_int (idx f),
      ''total'' \<mapsto> str_int (total f), ''data'' \<mapsto> b64encode (frag_data f)]"
    by (simp add: parts_def parse_fields_def split1_def)
  have fd: "FRAG_from_dict (parse_fields (tl parts)) = Inr f"
    using v by (simp add: pf FRAG_from_dict_def bind_err_def getitem_def int_str_def
        int_of_str_str_int b64decode_err_def b64decode_b64encode)
  have h: "hd parts = ''FRAG''" and l: "\<not> length parts < 2"
    by (simp_all add: parts_def)
  show "FrameParser_decode (encode_utf8 (encode_text FRAG_type (FRAG_to_dict f))) = Some (FRAG_frame f)"
    by (simp add: FrameParser_decode_def decode_encode_utf8 etx sp h l fd catch_def
        FrameType_of_def)
qed

lemma SYNC_roundtrip:
  assumes v: "valid_frame (SYNC_frame y)" and s: "wire_safe (SYNC_frame y)"
  shows "\<exists>w. FrameParser_encode (SYNC_frame y) = Inr w \<and>
             FrameParser_decode w = Some (SYNC_frame y)"
proof -
  from v have len: "length (bloom_filters y) = 3" and win: "0 \<le> window_index y" "window_index y \<le> 2"
    by (auto simp: SYNC_init_def split: if_splits)
  from len obtain bf0 bf1 bf2 where bfs: "bloom_filters y = [bf0, bf1, bf2]"
    by (auto simp: length_Suc_conv eval_nat_numeral)
  define items where "items = [(''from'', sync_from_node y), (''bf0'', b64encode bf0),
      (''bf1'', b64encode bf1), (''bf2'', b64encode bf2), (''win'', str_int (window_index y))]"
  have td: "SYNC_to_dict y = Inr items"
    by (simp add: SYNC_to_dict_def bind_err_def list_item_def bfs items_def)
  have enc: "FrameParser_encode (SYNC_frame y) = Inr (encode_utf8 (encode_text SYNC_type items))"
    by (simp add: FrameParser_encode_def bind_err_def td)
  define parts where "parts = [''SYNC'', ''from='' @ sync_from_node y, ''bf0='' @ b64encode bf0,
      ''bf1='' @ b64encode bf1, ''bf2='' @ b64encode bf2, ''win='' @ str_int (window_index y)]"
  have etx: "encode_text SYNC_type items = join (CHR ''|'') parts"
    by (simp add: encode_text_def items_def parts_def)
  have np: "list_all no_pipe parts"
    using s str_int_no_pipe[of "window_index y"]
      b64encode_no_pipe[of bf0] b64encode_no_pipe[of bf1] b64encode_no_pipe[of bf2]
    by (simp add: parts_def no_pipe_def)
  have sp: "split (CHR ''|'') (join (CHR ''|'') parts) = parts"
    by (rule split_join_pipe[OF _ np]) (simp add: parts_def)
  have pf: "parse_fields (tl parts) = [''from'' \<mapsto> sync_from_node y, ''bf0'' \<mapsto> b64encode bf0,
      ''bf1'' \<mapsto> b64encode bf1, ''bf2'' \<mapsto> b64encode bf2,
      ''win'' \<mapsto> str_int (window_index y)]"
    by (simp add: parts_def parse_fields_def split1_def)
  have fd: "SYNC_from_dict (parse_fields (tl parts)) = Inr y"
    using v bfs by (simp add: pf SYNC_from_dict_def bind_err_def getitem_def int_str_def
        int_of_str_str_int b64decode_err_def b64decode_b64encode)
  have h: "hd parts = ''SYNC''" and l: "\<not> length parts < 2"
    by (simp_all add: parts_def)
  have "FrameParser_decode (encode_utf8 (encode_text SYNC_type items)) = Some (SYNC_frame y)"
    by (simp add: FrameParser_decode_def decode_encode_utf8 etx sp h l fd catch_def
        FrameType_of_def)
  with enc show ?thesis by blast
qed

lemma REQ_roundtrip:
  assumes v: "valid_frame (REQ_frame r)" and s: "wire_safe (REQ_frame r)"
  shows "\<exists>w. FrameParser_encode (REQ_frame r) = Inr w \<and>
             FrameParser_decode w = Some (REQ_frame r)"
proof -
  have enc: "FrameParser_encode (REQ_frame r) = Inr (encode_utf8 (encode_text REQ_type (REQ_to_dict r)))"
    by (simp add: FrameParser_encode_def bind_err_def)
  have "FrameParser_decode (encode_utf8 (encode_text REQ_type (REQ_to_dict r))) = Some (REQ_frame r)"
  proof (cases "missing_fragments r")
    case None
    define parts where "parts = [''REQ'', ''from='' @ req_from_node r, ''msgid='' @ req_message_id r]"
    have etx: "encode_text REQ_type (REQ_to_dict r) = join (CHR ''|'') parts"
      by (simp add: encode_text_def REQ_to_dict_def parts_def None)
    have np: "list_all no_pipe parts"
      using s by (simp add: parts_def no_pipe_def)
    have sp: "split (CHR ''|'') (join (CHR ''|'') parts) = parts"
      by (rule split_join_pipe[OF _ np]) (simp add: parts_def)
    have pf: "parse_fields (tl parts) = [''from'' \<mapsto> req_from_node r, ''msgid'' \<mapsto> req_message_id r]"
      by (simp add: parts_def parse_fields_def split1_def)
    have fd: "REQ_from_dict (parse_fields (tl parts)) = Inr r"
      using v None by (simp add: pf REQ_from_dict_def bind_err_def getitem_def)
    have h: "hd parts = ''REQ''" and l: "\<not> length parts < 2"
      by (simp_all add: parts_def)
    show ?thesis
      by (simp add: FrameParser_decode_def decode_encode_utf8 etx sp h l fd catch_def
          FrameType_of_def)
  next
    case (Some ms)
    with s have ne: "ms \<noteq> []" by auto
    define mtxt where "mtxt = join (CHR '','') (map str_int ms)"
    define parts where "parts = [''REQ'', ''from='' @ req_from_node r, ''msgid='' @ req_message_id r,
        ''missing='' @ mtxt]"
    have etx: "encode_text REQ_type (REQ_to_dict r) = join (CHR ''|'') parts"
      using ne by (simp add: encode_text_def REQ_to_dict_def parts_def Some mtxt_def)
    have "CHR ''|'' \<notin> set mtxt"
      unfolding mtxt_def by (rule join_no_sep) (auto simp: str_int_no_pipe)
    then have np: "list_all no_pipe parts"
      using s by (simp add: parts_def no_pipe_def)
    have sp: "split (CHR ''|'') (join (CHR ''|'') parts) = parts"
      by (rule split_join_pipe[OF _ np]) (simp add: parts_def)
    have pf: "parse_fields (tl parts) = [''from'' \<mapsto> req_from_node r, ''msgid'' \<mapsto> req_message_id r,
        ''missing'' \<mapsto> mtxt]"
      by (simp add: parts_def parse_fields_def split1_def)
    have "split (CHR '','') mtxt = map str_int ms"
      unfolding mtxt_def by (rule split_join) (auto simp: ne str_int_no_comma)
    then have mi: "ints_of (split (CHR '','') mtxt) = Inr ms"
      by (simp add: ints_of_map_str_int)
    have fd: "REQ_from_dict (parse_fields (tl parts)) = Inr r"
      using v Some by (simp add: pf REQ_from_dict_def bind_err_def getitem_def mi)
    have h: "hd parts = ''REQ''" and l: "\<not> length parts < 2"
      by (simp_all add: parts_def)
    show ?thesis
      by (simp add: FrameParser_decode_def decode_encode_utf8 etx sp h l fd catch_def
          FrameType_of_def)
  qed
  with enc show ?thesis by blast
qed

text \<open>
  Claim C3 (RFMP codec round-trip), as the code has it. For every frame of the four
  types that its constructor accepts and that is \<open>wire_safe\<close>, \<open>encode\<close> succeeds
  and \<open>decode\<close> of the encoded bytes returns the frame itself, field by field (the
  codec changes no call sign; an absent \<open>reply_to\<close> travels as \<open>-\<close>). Binary fields
  are base64 text, which never holds \<open>|\<close>.
\<close>

theorem codec_roundtrip:
  assumes "valid_frame f" and "wire_safe f"
  shows "\<exists>w. FrameParser_encode f = Inr w \<and> FrameParser_decode w = Some f"
proof (cases f)
  case (MSG_frame m)
  with MSG_roundtrip[of m] assms show ?thesis by blast
next
  case (FRAG_frame g)
  with FRAG_roundtrip[of g] assms show ?thesis by blast
next
  case (SYNC_frame y)
  with SYNC_roundtrip[of y] assms show ?thesis by blast
next
  case (REQ_frame r)
  with REQ_roundtrip[of r] assms show ?thesis by blast
qed

definition ex_msg :: MSG where
  "ex_msg = \<lparr>msg_id = ''deadbeef0123'', from_node = ''N0CALL'', timestamp = ''20240101T000000Z'',
     channel = ''general'', priority = 1, reply_to = None, body = ''hello''\<rparr>"

definition ex_frag :: FRAG where
  "ex_frag = \<lparr>message_id = ''deadbeef0123'', idx = 1, total = 3, frag_data = [0x7C, 0x3D, 0xFF]\<rparr>"

definition ex_sync :: SYNC where
  "ex_sync = \<lparr>sync_from_node = ''N0CALL-3'', bloom_filters = [[0x7C], [], [0x00, 0xFF]],
     window_index = 2\<rparr>"

definition ex_req :: REQ where
  "ex_req = \<lparr>req_from_node = ''N0CALL'', req_message_id = ''deadbeef0123'',
     missing_fragments = Some [0, 2]\<rparr>"

lemmas text_eval = islower_def isascii_def is_lower_char_def is_upper_char_def is_ascii_char_def
  no_pipe_def

theorem codec_roundtrip_witness:
  "(valid_frame (MSG_frame ex_msg) \<and> wire_safe (MSG_frame ex_msg) \<and>
    (\<exists>w. FrameParser_encode (MSG_frame ex_msg) = Inr w \<and>
         FrameParser_decode w = Some (MSG_frame ex_msg))) \<and>
   (valid_frame (FRAG_frame ex_frag) \<and> wire_safe (FRAG_frame ex_frag) \<and>
    (\<exists>w. FrameParser_encode (FRAG_frame ex_frag) = Inr w \<and>
         FrameParser_decode w = Some (FRAG_frame ex_frag))) \<and>
   (valid_frame (SYNC_frame ex_sync) \<and> wire_safe (SYNC_frame ex_sync) \<and>
    (\<exists>w. FrameParser_encode (SYNC_frame ex_sync) = Inr w \<and>
         FrameParser_decode w = Some (SYNC_frame ex_sync))) \<and>
   (valid_frame (REQ_frame ex_req) \<and> wire_safe (REQ_frame ex_req) \<and>
    (\<exists>w. FrameParser_encode (REQ_frame ex_req) = Inr w \<and>
         FrameParser_decode w = Some (REQ_frame ex_req)))"
proof -
  have m: "valid_frame (MSG_frame ex_msg)" "wire_safe (MSG_frame ex_msg)"
    by (simp_all add: ex_msg_def MSG_init_def text_eval)
  have f: "valid_frame (FRAG_frame ex_frag)" "wire_safe (FRAG_frame ex_frag)"
    by (simp_all add: ex_frag_def FRAG_init_def no_pipe_def)
  have y: "valid_frame (SYNC_frame ex_sync)" "wire_safe (SYNC_frame ex_sync)"
    by (simp_all add: ex_sync_def SYNC_init_def no_pipe_def)
  have r: "valid_frame (REQ_frame ex_req)" "wire_safe (REQ_frame ex_req)"
    by (simp_all add: ex_req_def REQ_init_def no_pipe_def)
  from m f y r codec_roundtrip[OF m] codec_roundtrip[OF f] codec_roundtrip[OF y]
    codec_roundtrip[OF r]
  show ?thesis
    by blast
qed

text \<open>
  The claim as the specification words it fails. A MSG whose body holds \<open>|\<close> is
  accepted by the constructor and encoded as it is; the decoder splits the body at the
  delimiter, skips the rest (it holds no \<open>=\<close>) and returns a MSG with the body cut.
  A REQ whose list of missing fragments is empty is encoded without the key, and decodes
  to a REQ with no list.
\<close>

theorem codec_roundtrip_counterexample:
  "valid_frame (MSG_frame (ex_msg\<lparr>body := ''a|b''\<rparr>)) \<and>
   FrameParser_encode (MSG_frame (ex_msg\<lparr>body := ''a|b''\<rparr>))
     = Inr (encode_utf8 ''MSG|id=deadbeef0123|from=N0CALL|time=20240101T000000Z|chan=general|prio=1|reply=-|body=a|b'') \<and>
   FrameParser_decode (encode_utf8 ''MSG|id=deadbeef0123|from=N0CALL|time=20240101T000000Z|chan=general|prio=1|reply=-|body=a|b'')
     = Some (MSG_frame (ex_msg\<lparr>body := ''a''\<rparr>)) \<and>
   valid_frame (REQ_frame (ex_req\<lparr>missing_fragments := Some []\<rparr>)) \<and>
   FrameParser_encode (REQ_frame (ex_req\<lparr>missing_fragments := Some []\<rparr>))
     = Inr (encode_utf8 ''REQ|from=N0CALL|msgid=deadbeef0123'') \<and>
   FrameParser_decode (encode_utf8 ''REQ|from=N0CALL|msgid=deadbeef0123'')
     = Some (REQ_frame (ex_req\<lparr>missing_fragments := None\<rparr>))"
proof (intro conjI)
  show "valid_frame (MSG_frame (ex_msg\<lparr>body := ''a|b''\<rparr>))"
    by (simp add: ex_msg_def MSG_init_def text_eval)
  show "FrameParser_encode (MSG_frame (ex_msg\<lparr>body := ''a|b''\<rparr>))
     = Inr (encode_utf8 ''MSG|id=deadbeef0123|from=N0CALL|time=20240101T000000Z|chan=general|prio=1|reply=-|body=a|b'')"
    by (simp add: ex_msg_def FrameParser_encode_def bind_err_def encode_text_def MSG_to_dict_def
        str_int_def digits.simps digit_char_def char_eval)
  show "FrameParser_decode (encode_utf8 ''MSG|id=deadbeef0123|from=N0CALL|time=20240101T000000Z|chan=general|prio=1|reply=-|body=a|b'')
     = Some (MSG_frame (ex_msg\<lparr>body := ''a''\<rparr>))"
    by (simp add: decode_encode_utf8 FrameParser_decode_def FrameType_of_def parse_fields_def
        split1_def MSG_from_dict_def bind_err_def getitem_def int_str_def int_of_str_def strip_def
        is_space_def parse_nat_def is_digit_def digit_val_def MSG_init_def text_eval catch_def
        ex_msg_def)
  show "valid_frame (REQ_frame (ex_req\<lparr>missing_fragments := Some []\<rparr>))"
    by (simp add: ex_req_def REQ_init_def)
  show "FrameParser_encode (REQ_frame (ex_req\<lparr>missing_fragments := Some []\<rparr>))
     = Inr (encode_utf8 ''REQ|from=N0CALL|msgid=deadbeef0123'')"
    by (simp add: ex_req_def FrameParser_encode_def bind_err_def encode_text_def REQ_to_dict_def)
  show "FrameParser_decode (encode_utf8 ''REQ|from=N0CALL|msgid=deadbeef0123'')
     = Some (REQ_frame (ex_req\<lparr>missing_fragments := None\<rparr>))"
    by (simp add: decode_encode_utf8 FrameParser_decode_def FrameType_of_def parse_fields_def
        split1_def REQ_from_dict_def bind_err_def getitem_def REQ_init_def catch_def ex_req_def)
qed

section \<open>Properties of fragmentation\<close>

lemma collect_err_map_Inr:
  "(\<And>x. x \<in> set xs \<Longrightarrow> f x = Inr (g x)) \<Longrightarrow> collect_err (map f xs) = Inr (map g xs)"
  by (induction xs) (simp_all add: bind_err_def)

lemma concat_chunks:
  "concat (map (\<lambda>i. take k (drop (i * k) xs)) [0..<n]) = take (n * k) xs"
proof (induction n)
  case 0
  then show ?case by simp
next
  case (Suc n)
  have "Suc n * k = n * k + k"
    by simp
  then have "take (Suc n * k) xs = take (n * k) xs @ take k (drop (n * k) xs)"
    by (simp only: take_add)
  with Suc show ?case by simp
qed

lemma slice_chunk:
  assumes "0 < fs" "0 \<le> i"
  shows "slice xs (i * fs) (min (i * fs + fs) (int (length xs)))
           = take (nat fs) (drop (nat i * nat fs) xs)"
proof -
  have a: "nat (i * fs) = nat i * nat fs"
    using assms by (simp add: nat_mult_distrib)
  have b: "nat (min (i * fs + fs) (int (length xs))) = min (nat i * nat fs + nat fs) (length xs)"
    using assms a by (simp add: min_def nat_add_distrib) (smt (verit) mult_nonneg_nonneg nat_add_distrib nat_int nat_le_iff zero_le)
  show ?thesis
    unfolding slice_def a b
    by (cases "nat i * nat fs \<le> length xs") (simp_all add: min_def)
qed

lemma ceil_div_pos:
  assumes "0 < b"
  shows "a \<le> ceil_div a b * b" and "0 < a \<Longrightarrow> 0 < ceil_div a b"
proof -
  have "(- a) div b * b + (- a) mod b = - a"
    by (rule div_mult_mod_eq)
  moreover have "0 \<le> (- a) mod b"
    using assms by simp
  ultimately have "(- a) div b * b \<le> - a"
    by linarith
  then show "a \<le> ceil_div a b * b"
    by (simp add: ceil_div_def)
  show "0 < ceil_div a b" if "0 < a"
  proof -
    from that assms have "(- a) div b < 0"
      by (simp add: div_neg_pos_less0)
    then show ?thesis by (simp add: ceil_div_def)
  qed
qed

lemma range_set: "i \<in> set (range n) \<longleftrightarrow> 0 \<le> i \<and> i < n"
proof
  assume "i \<in> set (range n)"
  then obtain k where "k < nat n" "i = int k"
    by (auto simp: range_def)
  then show "0 \<le> i \<and> i < n"
    by simp
next
  assume a: "0 \<le> i \<and> i < n"
  then have "nat i < nat n" "i = int (nat i)"
    by simp_all
  then show "i \<in> set (range n)"
    unfolding range_def by (metis atLeast0LessThan image_eqI lessThan_iff set_map set_upt)
qed

lemma range_length: "length (range n) = nat n"
  by (simp add: range_def)

lemma range_nth: "i < nat n \<Longrightarrow> range n ! i = int i"
  by (simp add: range_def)

text \<open>The fragments that \<open>fragment_message\<close> builds.\<close>

definition chunk :: "byte list \<Rightarrow> int \<Rightarrow> int \<Rightarrow> byte list" where
  "chunk encoded fs i = take (nat fs) (drop (nat i * nat fs) encoded)"

lemma fragment_message_eq:
  assumes enc: "FrameParser_encode (MSG_frame m) = Inr encoded"
    and thr: "50 < thr" and len: "thr < int (length encoded)"
  shows "fragment_message thr m =
           Inr (map (\<lambda>i. \<lparr>message_id = msg_id m, idx = i,
                            total = ceil_div (int (length encoded)) (thr - 50),
                            frag_data = chunk encoded (thr - 50) i\<rparr>)
                  (range (ceil_div (int (length encoded)) (thr - 50))))"
proof -
  let ?fs = "thr - 50"
  let ?n = "ceil_div (int (length encoded)) ?fs"
  have fs: "0 < ?fs" using thr by simp
  have "collect_err
          (map (\<lambda>i. let start = i * ?fs; stop = min (start + ?fs) (int (length encoded))
                    in FRAG_init (msg_id m) i ?n (slice encoded start stop))
             (range ?n))
        = Inr (map (\<lambda>i. \<lparr>message_id = msg_id m, idx = i, total = ?n,
                           frag_data = chunk encoded ?fs i\<rparr>) (range ?n))"
  proof (rule collect_err_map_Inr)
    fix i assume "i \<in> set (range ?n)"
    then have i: "0 \<le> i" "i < ?n" by (simp_all add: range_set)
    then show "(let start = i * ?fs; stop = min (start + ?fs) (int (length encoded))
                in FRAG_init (msg_id m) i ?n (slice encoded start stop))
               = Inr \<lparr>message_id = msg_id m, idx = i, total = ?n,
                      frag_data = chunk encoded ?fs i\<rparr>"
      using slice_chunk[OF fs i(1), of encoded]
      by (simp add: Let_def FRAG_init_def chunk_def)
  qed
  then show ?thesis
    using enc len fs by (simp add: fragment_message_def bind_err_def Let_def)
qed

lemma concat_chunk_range:
  assumes "0 < fs" "int (length encoded) \<le> n * fs" "0 \<le> n"
  shows "concat (map (chunk encoded fs) (range n)) = encoded"
proof -
  have "concat (map (chunk encoded fs) (range n))
        = concat (map (\<lambda>i. take (nat fs) (drop (i * nat fs) encoded)) [0..<nat n])"
    by (simp add: range_def chunk_def comp_def)
  also have "\<dots> = take (nat n * nat fs) encoded"
    by (rule concat_chunks)
  also have "\<dots> = encoded"
  proof -
    have "int (nat n * nat fs) = n * fs"
      using assms by simp
    with assms(2) have "int (length encoded) \<le> int (nat n * nat fs)"
      by simp
    then have "length encoded \<le> nat n * nat fs"
      by (simp only: of_nat_le_iff)
    then show ?thesis by simp
  qed
  finally show ?thesis .
qed

lemma map_of_chunks:
  "i \<in> set ks \<Longrightarrow> map_of (map (\<lambda>k. (k, f k)) ks) i = Some (f i)"
  by (induction ks) auto

text \<open>
  Claim C9 (fragmentation completeness), as the code has it. For a fragmenter whose
  threshold is above 50 and a MSG whose encoded form is longer than the threshold,
  \<open>fragment_message\<close> returns \<open>ceil(L / (threshold - 50))\<close> fragments, indexed
  \<open>0..total-1\<close>, each with that total and the id of the MSG; their payloads in index
  order concatenate to the encoded bytes, a collector that holds them reassembles the
  same bytes, and these decode to the MSG when the MSG is accepted by its constructor
  and \<open>wire_safe\<close>.
\<close>

theorem fragmentation_complete:
  assumes enc: "FrameParser_encode (MSG_frame m) = Inr encoded"
    and thr: "50 < thr" and len: "thr < int (length encoded)"
  shows "\<exists>frs. fragment_message thr m = Inr frs
      \<and> int (length frs) = ceil_div (int (length encoded)) (thr - 50)
      \<and> map idx frs = range (int (length frs))
      \<and> list_all (\<lambda>f. total f = int (length frs) \<and> message_id f = msg_id m) frs
      \<and> concat (map frag_data frs) = encoded
      \<and> reassemble \<lparr>fc_message_id = msg_id m, total_fragments = int (length frs),
            fragments = map (\<lambda>f. (idx f, frag_data f)) frs, first_seen = t\<rparr> = Inr (Some encoded)
      \<and> (valid_frame (MSG_frame m) \<and> wire_safe (MSG_frame m) \<longrightarrow>
           FrameParser_decode (concat (map frag_data frs)) = Some (MSG_frame m))"
proof -
  let ?fs = "thr - 50"
  let ?L = "int (length encoded)"
  let ?n = "ceil_div ?L ?fs"
  let ?g = "\<lambda>i. \<lparr>message_id = msg_id m, idx = i, total = ?n, frag_data = chunk encoded ?fs i\<rparr>"
  let ?frs = "map ?g (range ?n)"
  have fs: "0 < ?fs" using thr by simp
  have L: "0 < ?L" using thr len by linarith
  have n: "0 < ?n" "?L \<le> ?n * ?fs"
    using ceil_div_pos[OF fs, of ?L] L by simp_all
  have 1: "fragment_message thr m = Inr ?frs"
    by (rule fragment_message_eq[OF enc thr len])
  have 2: "int (length ?frs) = ?n"
    using n by (simp add: range_length)
  have 3: "map idx ?frs = range (int (length ?frs))"
    unfolding 2 by (simp add: comp_def)
  have 4: "list_all (\<lambda>f. total f = int (length ?frs) \<and> message_id f = msg_id m) ?frs"
    unfolding 2 by (simp add: list_all_iff)
  have 5: "concat (map frag_data ?frs) = encoded"
    using concat_chunk_range[OF fs n(2)] n(1) by (simp add: comp_def)
  have 6: "reassemble \<lparr>fc_message_id = msg_id m, total_fragments = int (length ?frs),
            fragments = map (\<lambda>f. (idx f, frag_data f)) ?frs, first_seen = t\<rparr> = Inr (Some encoded)"
  proof -
    have fr: "map (\<lambda>f. (idx f, frag_data f)) ?frs = map (\<lambda>i. (i, chunk encoded ?fs i)) (range ?n)"
      by (simp add: comp_def)
    have "collect_err
            (map (\<lambda>i. case map_of (map (\<lambda>i. (i, chunk encoded ?fs i)) (range ?n)) i of
                        None \<Rightarrow> Inl KeyError | Some d \<Rightarrow> Inr d) (range ?n))
          = Inr (map (chunk encoded ?fs) (range ?n))"
      by (rule collect_err_map_Inr) (simp add: map_of_chunks)
    then show ?thesis
      unfolding fr 2 using concat_chunk_range[OF fs n(2)] n(1)
      by (simp add: reassemble_def is_complete_def range_length bind_err_def)
  qed
  have 7: "valid_frame (MSG_frame m) \<and> wire_safe (MSG_frame m) \<longrightarrow>
           FrameParser_decode (concat (map frag_data ?frs)) = Some (MSG_frame m)"
  proof
    assume a: "valid_frame (MSG_frame m) \<and> wire_safe (MSG_frame m)"
    then have "FrameParser_decode (encode_utf8 (encode_text MSG_type (MSG_to_dict m)))
                 = Some (MSG_frame m)"
      using MSG_roundtrip(2)[of m] by blast
    moreover have "encoded = encode_utf8 (encode_text MSG_type (MSG_to_dict m))"
      using enc by (simp add: FrameParser_encode_def bind_err_def)
    ultimately show "FrameParser_decode (concat (map frag_data ?frs)) = Some (MSG_frame m)"
      unfolding 5 by simp
  qed
  from 1 2 3 4 5 6 7 show ?thesis
    by blast
qed

definition pipe_msg :: MSG where
  "pipe_msg = ex_msg\<lparr>body := ''a|b''\<rparr>"

definition pipe_wire :: "byte list" where
  "pipe_wire = encode_utf8
     ''MSG|id=deadbeef0123|from=N0CALL|time=20240101T000000Z|chan=general|prio=1|reply=-|body=a|b''"

definition ex_wire :: "byte list" where
  "ex_wire = encode_utf8
     ''MSG|id=deadbeef0123|from=N0CALL|time=20240101T000000Z|chan=general|prio=1|reply=-|body=hello''"

lemma pipe_msg_valid: "valid_frame (MSG_frame pipe_msg)"
  by (simp add: pipe_msg_def ex_msg_def MSG_init_def text_eval)

lemma pipe_msg_encode: "FrameParser_encode (MSG_frame pipe_msg) = Inr pipe_wire"
  by (simp add: pipe_msg_def pipe_wire_def ex_msg_def FrameParser_encode_def bind_err_def
      encode_text_def MSG_to_dict_def str_int_def digits.simps digit_char_def char_eval)

lemma pipe_msg_decode: "FrameParser_decode pipe_wire = Some (MSG_frame (ex_msg\<lparr>body := ''a''\<rparr>))"
  by (simp add: pipe_wire_def decode_encode_utf8 FrameParser_decode_def FrameType_of_def
      parse_fields_def split1_def MSG_from_dict_def bind_err_def getitem_def int_str_def
      int_of_str_def strip_def is_space_def parse_nat_def is_digit_def digit_val_def MSG_init_def
      text_eval catch_def ex_msg_def)

lemma ex_msg_encode: "FrameParser_encode (MSG_frame ex_msg) = Inr ex_wire"
  by (simp add: ex_wire_def ex_msg_def FrameParser_encode_def bind_err_def
      encode_text_def MSG_to_dict_def str_int_def digits.simps digit_char_def char_eval)

lemma ex_wire_length: "length ex_wire = 92" "length pipe_wire = 90"
  by (simp_all add: ex_wire_def pipe_wire_def encode_utf8_def)

lemma ex_msg_ok: "valid_frame (MSG_frame ex_msg)" "wire_safe (MSG_frame ex_msg)"
  by (simp_all add: ex_msg_def MSG_init_def text_eval)

theorem fragmentation_complete_witness:
  "FrameParser_encode (MSG_frame ex_msg) = Inr ex_wire \<and> (50 :: int) < 60 \<and>
   (60 :: int) < int (length ex_wire) \<and>
   valid_frame (MSG_frame ex_msg) \<and> wire_safe (MSG_frame ex_msg) \<and>
   (\<exists>frs. fragment_message 60 ex_msg = Inr frs \<and> length frs = 10 \<and>
      map idx frs = range 10 \<and> concat (map frag_data frs) = ex_wire \<and>
      FrameParser_decode (concat (map frag_data frs)) = Some (MSG_frame ex_msg))"
proof -
  have l: "(60 :: int) < int (length ex_wire)"
    by (simp add: ex_wire_length)
  have c: "ceil_div (int (length ex_wire)) (60 - 50) = 10"
    by (simp add: ex_wire_length ceil_div_def)
  have h: "(50 :: int) < 60"
    by simp
  from fragmentation_complete[OF ex_msg_encode h l, of 0] obtain frs where
    f: "fragment_message 60 ex_msg = Inr frs"
      "int (length frs) = ceil_div (int (length ex_wire)) (60 - 50)"
      "map idx frs = range (int (length frs))"
      "concat (map frag_data frs) = ex_wire"
      "valid_frame (MSG_frame ex_msg) \<and> wire_safe (MSG_frame ex_msg) \<longrightarrow>
         FrameParser_decode (concat (map frag_data frs)) = Some (MSG_frame ex_msg)"
    by blast
  from f(2) c have n: "length frs = 10"
    by simp
  from f(3) n have i: "map idx frs = range 10"
    by simp
  from f(5) ex_msg_ok have d: "FrameParser_decode (concat (map frag_data frs)) = Some (MSG_frame ex_msg)"
    by blast
  from f(1) n i f(4) d ex_msg_ok ex_msg_encode l h show ?thesis
    by blast
qed

text \<open>
  The claim as the specification words it fails in two places. The configuration
  allows a threshold of 50, for which the fragment size is 0 and the division raises.
  And a MSG whose body holds \<open>|\<close> is split into fragments whose payloads do
  concatenate to its encoded form, but that form decodes to a MSG with the body cut.
\<close>

theorem fragmentation_counterexample:
  "fragment_message 50 ex_msg = Inl ZeroDivisionError \<and>
   valid_frame (MSG_frame pipe_msg) \<and>
   (case fragment_message 60 pipe_msg of
      Inl e \<Rightarrow> None
    | Inr frs \<Rightarrow> FrameParser_decode (concat (map frag_data frs)))
     = Some (MSG_frame (ex_msg\<lparr>body := ''a''\<rparr>))"
proof (intro conjI)
  show "fragment_message 50 ex_msg = Inl ZeroDivisionError"
    by (simp add: fragment_message_def ex_msg_encode bind_err_def ex_wire_length)
  show "valid_frame (MSG_frame pipe_msg)"
    by (rule pipe_msg_valid)
  have l: "(60 :: int) < int (length pipe_wire)"
    by (simp add: ex_wire_length)
  have h: "(50 :: int) < 60"
    by simp
  have c: "ceil_div (int (length pipe_wire)) 10 = 9"
    by (simp add: ex_wire_length ceil_div_def)
  have "concat (map (chunk pipe_wire 10) (range 9)) = pipe_wire"
    by (rule concat_chunk_range) (simp_all add: ex_wire_length)
  then show "(case fragment_message 60 pipe_msg of
      Inl e \<Rightarrow> None
    | Inr frs \<Rightarrow> FrameParser_decode (concat (map frag_data frs)))
     = Some (MSG_frame (ex_msg\<lparr>body := ''a''\<rparr>))"
    using fragment_message_eq[OF pipe_msg_encode h l]
    by (simp add: c comp_def pipe_msg_decode)
qed

section \<open>Bloom filters (sync/bloom.py)\<close>

text \<open>
  Times are integers, the microseconds of a \<open>datetime\<close>; \<open>timedelta(seconds=n)\<close>
  is \<open>seconds n\<close>. The clock \<open>datetime.utcnow()\<close> is an argument \<open>now\<close> of every
  operation that reads it. The hash \<open>mmh3.hash(item, seed, signed=False)\<close> of the
  external library is an argument \<open>h\<close>: every result below holds for any hash.
\<close>

definition seconds :: "int \<Rightarrow> int" where
  "seconds n = 1000000 * n"

type_synonym hash = "string \<Rightarrow> int \<Rightarrow> nat"

record BloomFilter =
  num_bits :: int
  num_hashes :: int
  num_bytes :: int
  bits :: "byte list"

text \<open>The constructor; \<open>bytearray(n)\<close> raises \<open>ValueError\<close> for a negative \<open>n\<close>.\<close>

definition BloomFilter_init :: "int \<Rightarrow> int \<Rightarrow> error + BloomFilter" where
  "BloomFilter_init nb nh =
     (if nb mod 8 \<noteq> 0 then Inl ValueError
      else if nb div 8 < 0 then Inl ValueError
      else Inr \<lparr>num_bits = nb, num_hashes = nh, num_bytes = nb div 8,
                bits = replicate (nat (nb div 8)) 0\<rparr>)"

text \<open>
  The body of the loop of \<open>BloomFilter.add\<close> for one seed, on the bit array:
  \<open>%\<close> raises \<open>ZeroDivisionError\<close> for no bits, an index outside the array raises
  \<open>IndexError\<close>. The bit position is not negative when the number of bits is positive.
\<close>

definition set_hash_bit :: "hash \<Rightarrow> int \<Rightarrow> string \<Rightarrow> int \<Rightarrow> byte list \<Rightarrow> error + byte list" where
  "set_hash_bit h nb item seed bs =
     (if nb = 0 then Inl ZeroDivisionError
      else
        let bit_pos = int (h item seed) mod nb;
            byte_idx = bit_pos div 8;
            bit_idx = bit_pos mod 8
        in if 0 \<le> byte_idx \<and> byte_idx < int (length bs)
           then Inr (bs[nat byte_idx := (bs ! nat byte_idx) OR push_bit (nat bit_idx) 1])
           else Inl IndexError)"

fun add_loop :: "hash \<Rightarrow> int \<Rightarrow> string \<Rightarrow> int list \<Rightarrow> byte list \<Rightarrow> error + byte list" where
  "add_loop h nb item [] bs = Inr bs"
| "add_loop h nb item (seed # seeds) bs =
     bind_err (set_hash_bit h nb item seed bs) (add_loop h nb item seeds)"

definition BloomFilter_add :: "hash \<Rightarrow> BloomFilter \<Rightarrow> string \<Rightarrow> error + BloomFilter" where
  "BloomFilter_add h bf item =
     bind_err (add_loop h (num_bits bf) item (range (num_hashes bf)) (bits bf))
       (\<lambda>bs. Inr (bf\<lparr>bits := bs\<rparr>))"

text \<open>The test of one bit in \<open>BloomFilter.contains\<close>, and its loop, which returns
  \<open>False\<close> at the first clear bit.\<close>

definition test_hash_bit :: "hash \<Rightarrow> int \<Rightarrow> string \<Rightarrow> int \<Rightarrow> byte list \<Rightarrow> error + bool" where
  "test_hash_bit h nb item seed bs =
     (if nb = 0 then Inl ZeroDivisionError
      else
        let bit_pos = int (h item seed) mod nb;
            byte_idx = bit_pos div 8;
            bit_idx = bit_pos mod 8
        in if 0 \<le> byte_idx \<and> byte_idx < int (length bs)
           then Inr ((bs ! nat byte_idx) AND push_bit (nat bit_idx) 1 \<noteq> 0)
           else Inl IndexError)"

fun contains_loop :: "hash \<Rightarrow> int \<Rightarrow> string \<Rightarrow> int list \<Rightarrow> byte list \<Rightarrow> error + bool" where
  "contains_loop h nb item [] bs = Inr True"
| "contains_loop h nb item (seed # seeds) bs =
     bind_err (test_hash_bit h nb item seed bs)
       (\<lambda>b. if \<not> b then Inr False else contains_loop h nb item seeds bs)"

definition BloomFilter_contains :: "hash \<Rightarrow> BloomFilter \<Rightarrow> string \<Rightarrow> error + bool" where
  "BloomFilter_contains h bf item =
     contains_loop h (num_bits bf) item (range (num_hashes bf)) (bits bf)"

record RotatingBloomFilter =
  window_duration :: int
  window_count :: int
  bloom_bits :: int
  bloom_hashes :: int
  windows :: "(int \<times> BloomFilter) list"
  current_window_index :: int

text \<open>The constructor with \<open>_initialize_windows\<close>, at time \<open>now\<close>.\<close>

definition RotatingBloomFilter_init ::
  "int \<Rightarrow> int \<Rightarrow> int \<Rightarrow> int \<Rightarrow> int \<Rightarrow> error + RotatingBloomFilter" where
  "RotatingBloomFilter_init now wd wc bb bh =
     bind_err
       (collect_err
          (map (\<lambda>i. bind_err (BloomFilter_init bb bh) (\<lambda>bloom. Inr (now - seconds (i * wd), bloom)))
             (range wc)))
       (\<lambda>ws. Inr \<lparr>window_duration = wd, window_count = wc, bloom_bits = bb, bloom_hashes = bh,
                   windows = ws, current_window_index = 0\<rparr>)"

text \<open>
  \<open>_rotate_if_needed\<close>: \<open>self.windows[-1]\<close> raises \<open>IndexError\<close> when there is no
  window. At most one window is replaced in a call.
\<close>

definition rotate_if_needed :: "int \<Rightarrow> RotatingBloomFilter \<Rightarrow> error + RotatingBloomFilter" where
  "rotate_if_needed now rb =
     (if windows rb = [] then Inl IndexError
      else
        let oldest_start = fst (last (windows rb));
            age = now - oldest_start
        in if age > seconds (window_duration rb * window_count rb) then
             bind_err (BloomFilter_init (bloom_bits rb) (bloom_hashes rb)) (\<lambda>new_bloom.
               if window_count rb = 0 then Inl ZeroDivisionError
               else Inr (rb\<lparr>windows := (now, new_bloom) # butlast (windows rb),
                             current_window_index :=
                               (current_window_index rb + 1) mod window_count rb\<rparr>))
           else Inr rb)"

text \<open>\<open>RotatingBloomFilter.add\<close> and \<open>contains\<close> at time \<open>now\<close>.\<close>

definition RotatingBloomFilter_add ::
  "hash \<Rightarrow> int \<Rightarrow> string \<Rightarrow> RotatingBloomFilter \<Rightarrow> error + RotatingBloomFilter" where
  "RotatingBloomFilter_add h now item rb =
     bind_err (rotate_if_needed now rb) (\<lambda>rb1.
       case windows rb1 of
         [] \<Rightarrow> Inl IndexError
       | (start, bloom) # ws \<Rightarrow>
           bind_err (BloomFilter_add h bloom item) (\<lambda>bloom1.
             Inr (rb1\<lparr>windows := (start, bloom1) # ws\<rparr>)))"

fun any_contains :: "hash \<Rightarrow> string \<Rightarrow> (int \<times> BloomFilter) list \<Rightarrow> error + bool" where
  "any_contains h item [] = Inr False"
| "any_contains h item ((start, bloom) # ws) =
     bind_err (BloomFilter_contains h bloom item)
       (\<lambda>b. if b then Inr True else any_contains h item ws)"

definition RotatingBloomFilter_contains ::
  "hash \<Rightarrow> int \<Rightarrow> string \<Rightarrow> RotatingBloomFilter \<Rightarrow> error + (bool \<times> RotatingBloomFilter)" where
  "RotatingBloomFilter_contains h now item rb =
     bind_err (rotate_if_needed now rb) (\<lambda>rb1.
       bind_err (any_contains h item (windows rb1)) (\<lambda>b. Inr (b, rb1)))"

text \<open>
  A run of the filter: a list of calls, each at its own time. \<open>get_filters\<close> only
  matters here through its call of \<open>_rotate_if_needed\<close>.
\<close>

datatype bloom_op = Add_op string | Contains_op string | Get_filters_op

fun apply_op :: "hash \<Rightarrow> int \<times> bloom_op \<Rightarrow> RotatingBloomFilter \<Rightarrow> error + RotatingBloomFilter" where
  "apply_op h (now, Add_op item) rb = RotatingBloomFilter_add h now item rb"
| "apply_op h (now, Contains_op item) rb =
     bind_err (RotatingBloomFilter_contains h now item rb) (\<lambda>(b, rb1). Inr rb1)"
| "apply_op h (now, Get_filters_op) rb = rotate_if_needed now rb"

fun run_ops :: "hash \<Rightarrow> (int \<times> bloom_op) list \<Rightarrow> RotatingBloomFilter \<Rightarrow> error + RotatingBloomFilter" where
  "run_ops h [] rb = Inr rb"
| "run_ops h (c # cs) rb = bind_err (apply_op h c rb) (run_ops h cs)"

text \<open>
  The filters the constructors build: a positive number of bits, eight to a byte of
  the array; at least one window and a window count that is not zero.
\<close>

definition bf_ok :: "BloomFilter \<Rightarrow> bool" where
  "bf_ok bf \<longleftrightarrow> 0 < num_bits bf \<and> int (length (bits bf)) * 8 = num_bits bf"

definition rb_ok :: "RotatingBloomFilter \<Rightarrow> bool" where
  "rb_ok rb \<longleftrightarrow>
     windows rb \<noteq> [] \<and> window_count rb \<noteq> 0 \<and> 0 < bloom_bits rb \<and> bloom_bits rb mod 8 = 0 \<and>
     list_all (\<lambda>w. bf_ok (snd w)) (windows rb)"

text \<open>The last moment at which the window that is now the newest is certainly kept.\<close>

definition deadline :: "RotatingBloomFilter \<Rightarrow> int" where
  "deadline rb = fst (hd (windows rb)) + seconds (window_duration rb * window_count rb)"

text \<open>The scenario of the expiry: a filter built at time 0 with three windows of ten
  seconds, an item added at 10 s and looked up at 11 s, 21 s and 31 s.\<close>

definition expiry_trace :: "hash \<Rightarrow> error + bool list" where
  "expiry_trace h =
     bind_err (RotatingBloomFilter_init 0 10 3 256 3) (\<lambda>rb0.
     bind_err (RotatingBloomFilter_add h (seconds 10) ''X'' rb0) (\<lambda>rb1.
     bind_err (RotatingBloomFilter_contains h (seconds 11) ''X'' rb1) (\<lambda>(b1, rb2).
     bind_err (RotatingBloomFilter_contains h (seconds 21) ''X'' rb2) (\<lambda>(b2, rb3).
     bind_err (RotatingBloomFilter_contains h (seconds 31) ''X'' rb3) (\<lambda>(b3, rb4).
       Inr [b1, b2, b3])))))"

subsection \<open>Properties of the Bloom filters\<close>

text \<open>Every bit set in the first array is set in the second.\<close>

definition subbits :: "byte list \<Rightarrow> byte list \<Rightarrow> bool" where
  "subbits bs bs' \<longleftrightarrow> length bs' = length bs \<and> (\<forall>i<length bs. \<forall>n. bit (bs ! i) n \<longrightarrow> bit (bs' ! i) n)"

lemma subbits_refl: "subbits bs bs"
  by (simp add: subbits_def)

lemma subbits_trans: "subbits a b \<Longrightarrow> subbits b c \<Longrightarrow> subbits a c"
  by (simp add: subbits_def)

lemma test_bit_iff: "((b::byte) AND push_bit k 1 \<noteq> 0) = bit b k"
  by (simp add: bit_iff_and_push_bit_not_eq_0)

lemma bit_pos_range:
  assumes "0 < nb" "int (length bs) * 8 = nb"
  shows "0 \<le> (v mod nb) div 8 \<and> (v mod nb) div 8 < int (length bs)"
proof -
  define x where "x = v mod nb"
  have "0 \<le> x" "x < int (length bs) * 8" using assms by (simp_all add: x_def)
  hence "0 \<le> x div 8 \<and> x div 8 < int (length bs)" by presburger
  thus ?thesis by (simp add: x_def)
qed

lemma set_hash_bit_ok:
  assumes "0 < nb" "int (length bs) * 8 = nb"
  shows "\<exists>bs'. set_hash_bit h nb item seed bs = Inr bs' \<and> subbits bs bs' \<and>
           test_hash_bit h nb item seed bs' = Inr True"
proof -
  let ?p = "int (h item seed) mod nb"
  have r: "0 \<le> ?p div 8" "?p div 8 < int (length bs)"
    using bit_pos_range[OF assms] by simp_all
  have m: "nat (?p mod 8) < 8" by simp
  let ?bs = "bs[nat (?p div 8) := (bs ! nat (?p div 8)) OR push_bit (nat (?p mod 8)) 1]"
  have 1: "set_hash_bit h nb item seed bs = Inr ?bs"
    using assms r by (simp add: set_hash_bit_def Let_def)
  have i: "nat (?p div 8) < length bs" using r by simp
  have 2: "subbits bs ?bs"
    unfolding subbits_def using i by (auto simp: nth_list_update bit_simps)
  have 3: "test_hash_bit h nb item seed ?bs = Inr True"
    using assms r i m unfolding test_hash_bit_def Let_def test_bit_iff
    by (simp add: bit_simps)
  show ?thesis using 1 2 3 by simp
qed

lemma test_hash_bit_total:
  assumes "0 < nb" "int (length bs) * 8 = nb"
  shows "\<exists>b. test_hash_bit h nb item seed bs = Inr b"
  using bit_pos_range[OF assms] assms by (auto simp: test_hash_bit_def Let_def)

lemma test_hash_bit_mono:
  assumes "test_hash_bit h nb item seed bs = Inr True" "subbits bs bs'"
  shows "test_hash_bit h nb item seed bs' = Inr True"
  using assms unfolding test_hash_bit_def Let_def test_bit_iff subbits_def
  by (auto split: if_splits)

lemma contains_loop_mono:
  "contains_loop h nb item seeds bs = Inr True \<Longrightarrow> subbits bs bs' \<Longrightarrow>
   contains_loop h nb item seeds bs' = Inr True"
proof (induction seeds)
  case Nil thus ?case by simp
next
  case (Cons s seeds)
  from Cons.prems(1) have t: "test_hash_bit h nb item s bs = Inr True"
    and c: "contains_loop h nb item seeds bs = Inr True"
    by (auto simp: bind_err_def split: sum.splits if_splits)
  show ?case using test_hash_bit_mono[OF t Cons.prems(2)] Cons.IH[OF c Cons.prems(2)]
    by (simp add: bind_err_def)
qed

lemma contains_loop_total:
  assumes "0 < nb" "int (length bs) * 8 = nb"
  shows "\<exists>b. contains_loop h nb item seeds bs = Inr b"
proof (induction seeds)
  case Nil show ?case by auto
next
  case (Cons s seeds)
  obtain b where t: "test_hash_bit h nb item s bs = Inr b"
    using test_hash_bit_total[OF assms] by blast
  show ?case
  proof (cases b)
    case True
    thus ?thesis using t Cons by (simp add: bind_err_def)
  next
    case False
    hence "contains_loop h nb item (s # seeds) bs = Inr False"
      using t by (simp add: bind_err_def)
    thus ?thesis by blast
  qed
qed

lemma add_loop_ok:
  assumes "0 < nb"
  shows "int (length bs) * 8 = nb \<Longrightarrow>
         \<exists>bs'. add_loop h nb item seeds bs = Inr bs' \<and> subbits bs bs' \<and>
           contains_loop h nb item seeds bs' = Inr True"
proof (induction seeds arbitrary: bs)
  case Nil show ?case by (simp add: subbits_refl)
next
  case (Cons s seeds)
  obtain b1 where 1: "set_hash_bit h nb item s bs = Inr b1" "subbits bs b1"
    "test_hash_bit h nb item s b1 = Inr True"
    using set_hash_bit_ok[OF assms Cons.prems] by blast
  have l: "int (length b1) * 8 = nb" using 1(2) Cons.prems by (simp add: subbits_def)
  obtain b2 where 2: "add_loop h nb item seeds b1 = Inr b2" "subbits b1 b2"
    "contains_loop h nb item seeds b2 = Inr True"
    using Cons.IH[OF l] by blast
  have "test_hash_bit h nb item s b2 = Inr True"
    using test_hash_bit_mono[OF 1(3) 2(2)] .
  thus ?case using 1 2 subbits_trans[OF 1(2) 2(2)] by (simp add: bind_err_def)
qed

lemma BloomFilter_add_ok:
  assumes "bf_ok bf"
  shows "\<exists>bf'. BloomFilter_add h bf item = Inr bf' \<and> bf_ok bf' \<and>
           subbits (bits bf) (bits bf') \<and> num_bits bf' = num_bits bf \<and>
           num_hashes bf' = num_hashes bf \<and>
           BloomFilter_contains h bf' item = Inr True"
proof -
  from assms have a: "0 < num_bits bf" "int (length (bits bf)) * 8 = num_bits bf"
    by (simp_all add: bf_ok_def)
  obtain bs' where 1: "add_loop h (num_bits bf) item (range (num_hashes bf)) (bits bf) = Inr bs'"
    "subbits (bits bf) bs'"
    "contains_loop h (num_bits bf) item (range (num_hashes bf)) bs' = Inr True"
    using add_loop_ok[OF a] by blast
  thus ?thesis using a
    by (simp add: BloomFilter_add_def BloomFilter_contains_def bind_err_def bf_ok_def subbits_def)
qed

lemma BloomFilter_contains_mono:
  assumes "BloomFilter_contains h bf item = Inr True" "subbits (bits bf) (bits bf')"
    "num_bits bf' = num_bits bf" "num_hashes bf' = num_hashes bf"
  shows "BloomFilter_contains h bf' item = Inr True"
  using contains_loop_mono[OF _ assms(2)] assms unfolding BloomFilter_contains_def by simp

lemma BloomFilter_contains_total:
  assumes "bf_ok bf"
  shows "\<exists>b. BloomFilter_contains h bf item = Inr b"
  using assms contains_loop_total unfolding BloomFilter_contains_def bf_ok_def by blast

lemma BloomFilter_init_ok:
  assumes "0 < nb" "nb mod 8 = 0"
  shows "\<exists>bf. BloomFilter_init nb nh = Inr bf \<and> bf_ok bf \<and> num_bits bf = nb \<and>
           num_hashes bf = nh \<and> bits bf = replicate (nat (nb div 8)) 0"
proof -
  have "0 \<le> nb div 8" using assms by (simp add: pos_imp_zdiv_nonneg_iff)
  moreover have "nb div 8 * 8 = nb" using assms by (simp add: mod_0_imp_dvd)
  ultimately show ?thesis using assms by (simp add: BloomFilter_init_def bf_ok_def)
qed

lemma empty_contains:
  assumes "0 < nb" "nb mod 8 = 0" "0 < nh" "BloomFilter_init nb nh = Inr bf"
  shows "BloomFilter_contains h bf item = Inr False"
proof -
  obtain bf' where b: "BloomFilter_init nb nh = Inr bf'" "bf_ok bf'" "num_bits bf' = nb"
    "num_hashes bf' = nh" "bits bf' = replicate (nat (nb div 8)) 0"
    using BloomFilter_init_ok[OF assms(1,2)] by blast
  have e: "bf' = bf" using b(1) assms(4) by simp
  obtain k where k: "nat nh = Suc k" using assms(3) by (cases "nat nh") simp_all
  have r: "range nh = 0 # map int [1..<Suc k]"
    unfolding range_def k by (simp add: upt_conv_Cons del: upt_Suc)
  have l: "int (length (bits bf')) * 8 = nb" using b(2,3) by (simp add: bf_ok_def)
  have i: "nat (int (h item 0) mod nb div 8) < nat (nb div 8)"
    using bit_pos_range[OF assms(1) l, of "int (h item 0)"] b(5) by (auto split: if_splits)
  have "test_hash_bit h nb item 0 (bits bf') = Inr False"
    using bit_pos_range[OF assms(1) l, of "int (h item 0)"] assms(1) i
    unfolding test_hash_bit_def Let_def b(5) by simp
  thus ?thesis unfolding BloomFilter_contains_def e[symmetric] b(3,4) r
    by (simp add: bind_err_def)
qed

lemma in_butlast:
  assumes "w \<in> set ws" "w \<noteq> last ws"
  shows "w \<in> set (butlast ws)"
proof -
  have "ws \<noteq> []" using assms(1) by auto
  hence "ws = butlast ws @ [last ws]" by simp
  hence "set ws = set (butlast ws) \<union> {last ws}"
    by (metis set_append list.simps(15) empty_set)
  thus ?thesis using assms by auto
qed

lemma rotate_if_needed_ok:
  assumes "rb_ok rb"
  shows "\<exists>rb'. rotate_if_needed now rb = Inr rb' \<and> rb_ok rb' \<and>
           window_duration rb' = window_duration rb \<and> window_count rb' = window_count rb \<and>
           bloom_bits rb' = bloom_bits rb \<and> bloom_hashes rb' = bloom_hashes rb \<and>
           (\<forall>w \<in> set (windows rb).
              now \<le> fst w + seconds (window_duration rb * window_count rb) \<longrightarrow>
              w \<in> set (windows rb')) \<and>
           (windows rb' = windows rb \<or> fst (hd (windows rb')) = now)"
proof (cases "now - fst (last (windows rb)) > seconds (window_duration rb * window_count rb)")
  case False
  thus ?thesis using assms by (simp add: rotate_if_needed_def rb_ok_def Let_def)
next
  case True
  from assms have a: "windows rb \<noteq> []" "window_count rb \<noteq> 0" "0 < bloom_bits rb"
    "bloom_bits rb mod 8 = 0" "list_all (\<lambda>w. bf_ok (snd w)) (windows rb)"
    by (simp_all add: rb_ok_def)
  obtain nbf where n: "BloomFilter_init (bloom_bits rb) (bloom_hashes rb) = Inr nbf" "bf_ok nbf"
    using BloomFilter_init_ok[OF a(3,4)] by blast
  let ?rb = "rb\<lparr>windows := (now, nbf) # butlast (windows rb),
                 current_window_index := (current_window_index rb + 1) mod window_count rb\<rparr>"
  have 1: "rotate_if_needed now rb = Inr ?rb"
    using True a n by (simp add: rotate_if_needed_def Let_def bind_err_def)
  have "list_all (\<lambda>w. bf_ok (snd w)) (butlast (windows rb))"
    using a(5) by (auto simp: list_all_iff dest: in_set_butlastD)
  hence 2: "rb_ok ?rb" using a n by (simp add: rb_ok_def)
  have 3: "\<forall>w \<in> set (windows rb).
              now \<le> fst w + seconds (window_duration rb * window_count rb) \<longrightarrow>
              w \<in> set (windows ?rb)"
  proof (intro ballI impI)
    fix w assume w: "w \<in> set (windows rb)"
      "now \<le> fst w + seconds (window_duration rb * window_count rb)"
    have "w \<noteq> last (windows rb)" using True w(2) by auto
    thus "w \<in> set (windows ?rb)" using in_butlast[OF w(1)] by simp
  qed
  show ?thesis using 1 2 3 by simp
qed

text \<open>Some window that started at \<open>s\<close> holds the item.\<close>

definition holds :: "hash \<Rightarrow> string \<Rightarrow> int \<Rightarrow> RotatingBloomFilter \<Rightarrow> bool" where
  "holds h x s rb \<longleftrightarrow> (\<exists>b. (s, b) \<in> set (windows rb) \<and> BloomFilter_contains h b x = Inr True)"

lemma add_ok:
  assumes "rb_ok rb"
  shows "\<exists>rb'. RotatingBloomFilter_add h now item rb = Inr rb' \<and> rb_ok rb' \<and>
           window_duration rb' = window_duration rb \<and> window_count rb' = window_count rb \<and>
           holds h item (fst (hd (windows rb'))) rb' \<and>
           (\<forall>x s. holds h x s rb \<and> now \<le> s + seconds (window_duration rb * window_count rb)
                  \<longrightarrow> holds h x s rb') \<and>
           ((\<forall>w \<in> set (windows rb). fst w \<le> now) \<longrightarrow> fst (hd (windows rb')) \<le> now)"
proof -
  obtain rb1 where r: "rotate_if_needed now rb = Inr rb1" "rb_ok rb1"
    "window_duration rb1 = window_duration rb" "window_count rb1 = window_count rb"
    "\<forall>w \<in> set (windows rb).
              now \<le> fst w + seconds (window_duration rb * window_count rb) \<longrightarrow>
              w \<in> set (windows rb1)"
    "windows rb1 = windows rb \<or> fst (hd (windows rb1)) = now"
    using rotate_if_needed_ok[OF assms, of now] by blast
  obtain start bloom ws where w: "windows rb1 = (start, bloom) # ws"
    using r(2) by (cases "windows rb1") (auto simp: rb_ok_def)
  have bo: "bf_ok bloom" and wo: "list_all (\<lambda>w. bf_ok (snd w)) ws"
    using r(2) w by (simp_all add: rb_ok_def)
  obtain bloom1 where b: "BloomFilter_add h bloom item = Inr bloom1" "bf_ok bloom1"
    "subbits (bits bloom) (bits bloom1)" "num_bits bloom1 = num_bits bloom"
    "num_hashes bloom1 = num_hashes bloom" "BloomFilter_contains h bloom1 item = Inr True"
    using BloomFilter_add_ok[OF bo] by blast
  let ?rb = "rb1\<lparr>windows := (start, bloom1) # ws\<rparr>"
  have 1: "RotatingBloomFilter_add h now item rb = Inr ?rb"
    using r(1) w b(1) by (simp add: RotatingBloomFilter_add_def bind_err_def)
  have 2: "rb_ok ?rb" using r(2) b(2) wo by (simp add: rb_ok_def)
  have 3: "holds h item (fst (hd (windows ?rb))) ?rb"
    using b(6) by (auto simp: holds_def)
  have 4: "holds h x s ?rb"
    if hx: "holds h x s rb" and t: "now \<le> s + seconds (window_duration rb * window_count rb)"
    for x s
  proof -
    obtain c where c: "(s, c) \<in> set (windows rb)" "BloomFilter_contains h c x = Inr True"
      using hx by (auto simp: holds_def)
    have "(s, c) \<in> set (windows rb1)" using r(5) c(1) t by auto
    hence "(s, c) = (start, bloom) \<or> (s, c) \<in> set ws" using w by auto
    thus ?thesis
    proof
      assume "(s, c) = (start, bloom)"
      hence "BloomFilter_contains h bloom1 x = Inr True" "s = start"
        using BloomFilter_contains_mono[OF _ b(3,4,5)] c(2) by simp_all
      thus ?thesis by (auto simp: holds_def)
    next
      assume "(s, c) \<in> set ws"
      thus ?thesis using c(2) by (auto simp: holds_def)
    qed
  qed
  have 5: "(\<forall>w \<in> set (windows rb). fst w \<le> now) \<longrightarrow> fst (hd (windows ?rb)) \<le> now"
  proof
    assume a: "\<forall>w \<in> set (windows rb). fst w \<le> now"
    from r(6) show "fst (hd (windows ?rb)) \<le> now"
    proof
      assume "windows rb1 = windows rb"
      hence "windows rb = (start, bloom) # ws" using w by simp
      hence "(start, bloom) \<in> set (windows rb)" by simp
      thus ?thesis using a by fastforce
    next
      assume "fst (hd (windows rb1)) = now"
      thus ?thesis using w by simp
    qed
  qed
  show ?thesis using 1 2 3 4 5 r(3,4) by (intro exI[of _ ?rb]) simp
qed

lemma any_contains_ok:
  assumes "list_all (\<lambda>w. bf_ok (snd w)) ws"
  shows "\<exists>b. any_contains h item ws = Inr b \<and>
           ((\<exists>w \<in> set ws. BloomFilter_contains h (snd w) item = Inr True) \<longrightarrow> b)"
  using assms
proof (induction ws)
  case Nil show ?case by (intro exI[of _ False]) simp
next
  case (Cons w ws)
  obtain s bf where w: "w = (s, bf)" by (cases w)
  obtain b where b: "BloomFilter_contains h bf item = Inr b"
    using BloomFilter_contains_total[of bf] Cons.prems w by auto
  show ?case
  proof (cases b)
    case True
    hence "any_contains h item (w # ws) = Inr True" using b w by (simp add: bind_err_def)
    thus ?thesis by (intro exI[of _ True]) simp
  next
    case False
    obtain b' where i: "any_contains h item ws = Inr b'"
      "(\<exists>w \<in> set ws. BloomFilter_contains h (snd w) item = Inr True) \<longrightarrow> b'"
      using Cons by auto
    have "any_contains h item (w # ws) = Inr b'" using b w False i(1) by (simp add: bind_err_def)
    thus ?thesis using i(2) b w False by auto
  qed
qed

lemma contains_ok:
  assumes "rb_ok rb"
  shows "\<exists>b rb'. RotatingBloomFilter_contains h now item rb = Inr (b, rb') \<and> rb_ok rb' \<and>
           window_duration rb' = window_duration rb \<and> window_count rb' = window_count rb \<and>
           (\<forall>x s. holds h x s rb \<and> now \<le> s + seconds (window_duration rb * window_count rb)
                  \<longrightarrow> holds h x s rb') \<and>
           ((\<exists>s. holds h item s rb \<and> now \<le> s + seconds (window_duration rb * window_count rb))
              \<longrightarrow> b)"
proof -
  obtain rb1 where r: "rotate_if_needed now rb = Inr rb1" "rb_ok rb1"
    "window_duration rb1 = window_duration rb" "window_count rb1 = window_count rb"
    "\<forall>w \<in> set (windows rb).
              now \<le> fst w + seconds (window_duration rb * window_count rb) \<longrightarrow>
              w \<in> set (windows rb1)"
    using rotate_if_needed_ok[OF assms, of now] by blast
  have k: "holds h x s rb1"
    if "holds h x s rb" "now \<le> s + seconds (window_duration rb * window_count rb)" for x s
    using that r(5) by (fastforce simp: holds_def)
  have "list_all (\<lambda>w. bf_ok (snd w)) (windows rb1)" using r(2) by (simp add: rb_ok_def)
  from any_contains_ok[OF this, of h item]
  obtain b where b: "any_contains h item (windows rb1) = Inr b"
    "(\<exists>w \<in> set (windows rb1). BloomFilter_contains h (snd w) item = Inr True) \<longrightarrow> b"
    by blast
  have 1: "RotatingBloomFilter_contains h now item rb = Inr (b, rb1)"
    using r(1) b(1) by (simp add: RotatingBloomFilter_contains_def bind_err_def)
  have 2: "b" if "holds h item s rb" "now \<le> s + seconds (window_duration rb * window_count rb)" for s
    using k[OF that] b(2) by (fastforce simp: holds_def)
  show ?thesis using 1 r(2,3,4) k 2 by (intro exI[of _ b] exI[of _ rb1]) blast
qed

lemma apply_op_ok:
  assumes "rb_ok rb"
  shows "\<exists>rb'. apply_op h (now, c) rb = Inr rb' \<and> rb_ok rb' \<and>
           window_duration rb' = window_duration rb \<and> window_count rb' = window_count rb \<and>
           (\<forall>x s. holds h x s rb \<and> now \<le> s + seconds (window_duration rb * window_count rb)
                  \<longrightarrow> holds h x s rb')"
proof (cases c)
  case (Add_op item)
  show ?thesis using add_ok[OF assms, of h now item] unfolding Add_op apply_op.simps by blast
next
  case (Contains_op item)
  obtain b rb' where "RotatingBloomFilter_contains h now item rb = Inr (b, rb')" "rb_ok rb'"
    "window_duration rb' = window_duration rb" "window_count rb' = window_count rb"
    "\<forall>x s. holds h x s rb \<and> now \<le> s + seconds (window_duration rb * window_count rb)
                  \<longrightarrow> holds h x s rb'"
    using contains_ok[OF assms, of h now item] by blast
  thus ?thesis unfolding Contains_op by (simp add: bind_err_def)
next
  case Get_filters_op
  obtain rb1 where r: "rotate_if_needed now rb = Inr rb1" "rb_ok rb1"
    "window_duration rb1 = window_duration rb" "window_count rb1 = window_count rb"
    "\<forall>w \<in> set (windows rb).
              now \<le> fst w + seconds (window_duration rb * window_count rb) \<longrightarrow>
              w \<in> set (windows rb1)"
    using rotate_if_needed_ok[OF assms, of now] by blast
  have "holds h x s rb1"
    if "holds h x s rb" "now \<le> s + seconds (window_duration rb * window_count rb)" for x s
    using that r(5) by (fastforce simp: holds_def)
  thus ?thesis using r unfolding Get_filters_op by simp
qed

lemma run_ops_ok:
  "rb_ok rb \<Longrightarrow> holds h x s rb \<Longrightarrow>
   list_all (\<lambda>c. fst c \<le> s + seconds (window_duration rb * window_count rb)) ops \<Longrightarrow>
   \<exists>rb'. run_ops h ops rb = Inr rb' \<and> rb_ok rb' \<and>
     window_duration rb' = window_duration rb \<and> window_count rb' = window_count rb \<and>
     holds h x s rb'"
proof (induction ops arbitrary: rb)
  case Nil thus ?case by simp
next
  case (Cons c ops)
  obtain now k where c: "c = (now, k)" by (cases c)
  have t: "now \<le> s + seconds (window_duration rb * window_count rb)"
    using Cons.prems(3) c by simp
  obtain rb1 where 1: "apply_op h (now, k) rb = Inr rb1" "rb_ok rb1"
    "window_duration rb1 = window_duration rb" "window_count rb1 = window_count rb"
    "holds h x s rb1"
    using apply_op_ok[OF Cons.prems(1), of h now k] Cons.prems(2) t by blast
  have "list_all (\<lambda>c. fst c \<le> s + seconds (window_duration rb1 * window_count rb1)) ops"
    using Cons.prems(3) 1(3,4) by simp
  from Cons.IH[OF 1(2) 1(5) this] show ?case using 1 c by (auto simp: bind_err_def)
qed

text \<open>
  Claim C5 (rotating-Bloom expiry lower bound), as the code has it. On a well-formed
  filter \<open>add(x)\<close> at time \<open>t\<close> returns, and puts \<open>x\<close> in the newest window; that window
  started no later than \<open>t\<close> when no window starts in the future. Whatever calls of
  \<open>add\<close>, \<open>contains\<close> and \<open>get_filters\<close> follow, all of them return and \<open>contains(x)\<close>
  is true as long as every call is made no later than \<open>window_count \<times> window_duration\<close>
  seconds after the start of that window: the retention is counted from the start
  of the window, not from the call of \<open>add\<close>.
\<close>

theorem rotating_bloom_retention:
  assumes "rb_ok rb"
  shows "\<exists>rb1. RotatingBloomFilter_add h t x rb = Inr rb1 \<and>
           ((\<forall>w \<in> set (windows rb). fst w \<le> t) \<longrightarrow> fst (hd (windows rb1)) \<le> t) \<and>
           (\<forall>ops now. list_all (\<lambda>c. fst c \<le> deadline rb1) ops \<and> now \<le> deadline rb1 \<longrightarrow>
              (\<exists>rb2 rb3. run_ops h ops rb1 = Inr rb2 \<and>
                 RotatingBloomFilter_contains h now x rb2 = Inr (True, rb3)))"
proof -
  obtain rb1 where 1: "RotatingBloomFilter_add h t x rb = Inr rb1" "rb_ok rb1"
    "holds h x (fst (hd (windows rb1))) rb1"
    "(\<forall>w \<in> set (windows rb). fst w \<le> t) \<longrightarrow> fst (hd (windows rb1)) \<le> t"
    using add_ok[OF assms, of h t x] by blast
  have 2: "\<exists>rb2 rb3. run_ops h ops rb1 = Inr rb2 \<and>
                 RotatingBloomFilter_contains h now x rb2 = Inr (True, rb3)"
    if o: "list_all (\<lambda>c. fst c \<le> deadline rb1) ops" and n: "now \<le> deadline rb1" for ops now
  proof -
    obtain rb2 where r: "run_ops h ops rb1 = Inr rb2" "rb_ok rb2"
      "window_duration rb2 = window_duration rb1" "window_count rb2 = window_count rb1"
      "holds h x (fst (hd (windows rb1))) rb2"
      using run_ops_ok[OF 1(2,3)] o unfolding deadline_def by blast
    have "now \<le> fst (hd (windows rb1)) + seconds (window_duration rb2 * window_count rb2)"
      using n r(3,4) by (simp add: deadline_def)
    moreover obtain b rb3 where c: "RotatingBloomFilter_contains h now x rb2 = Inr (b, rb3)"
      "(\<exists>s. holds h x s rb2 \<and>
              now \<le> s + seconds (window_duration rb2 * window_count rb2)) \<longrightarrow> b"
      using contains_ok[OF r(2), of h now x] by blast
    ultimately have b using r(5) by blast
    thus ?thesis using c(1) r(1) by auto
  qed
  show ?thesis using 1(1,4) 2 by blast
qed

text \<open>The filter of the expiry scenario after its constructor and the \<open>add\<close>.\<close>

lemma range_3: "range 3 = [0, 1, 2]"
  by (simp add: range_def upt_conv_Cons)

lemma expiry_run:
  "\<exists>nbf b1.
     bf_ok nbf \<and> bf_ok b1 \<and>
     RotatingBloomFilter_init 0 10 3 256 3 =
       Inr \<lparr>window_duration = 10, window_count = 3, bloom_bits = 256, bloom_hashes = 3,
            windows = [(0, nbf), (- seconds 10, nbf), (- seconds 20, nbf)],
            current_window_index = 0\<rparr> \<and>
     RotatingBloomFilter_add h (seconds 10) ''X''
         \<lparr>window_duration = 10, window_count = 3, bloom_bits = 256, bloom_hashes = 3,
            windows = [(0, nbf), (- seconds 10, nbf), (- seconds 20, nbf)],
            current_window_index = 0\<rparr> =
       Inr \<lparr>window_duration = 10, window_count = 3, bloom_bits = 256, bloom_hashes = 3,
            windows = [(0, b1), (- seconds 10, nbf), (- seconds 20, nbf)],
            current_window_index = 0\<rparr> \<and>
     BloomFilter_init 256 3 = Inr nbf \<and>
     BloomFilter_contains h nbf ''X'' = Inr False \<and>
     BloomFilter_contains h b1 ''X'' = Inr True"
proof -
  obtain nbf where n: "BloomFilter_init 256 3 = Inr nbf" "bf_ok nbf"
    using BloomFilter_init_ok[of 256 3] by auto
  have e: "BloomFilter_contains h nbf ''X'' = Inr False"
    using empty_contains[OF _ _ _ n(1)] by simp
  obtain b1 where b: "BloomFilter_add h nbf ''X'' = Inr b1" "bf_ok b1"
    "BloomFilter_contains h b1 ''X'' = Inr True"
    using BloomFilter_add_ok[OF n(2)] by blast
  have i: "RotatingBloomFilter_init 0 10 3 256 3 =
       Inr \<lparr>window_duration = 10, window_count = 3, bloom_bits = 256, bloom_hashes = 3,
            windows = [(0, nbf), (- seconds 10, nbf), (- seconds 20, nbf)],
            current_window_index = 0\<rparr>"
    by (simp add: RotatingBloomFilter_init_def range_3 n(1) bind_err_def seconds_def)
  have a: "RotatingBloomFilter_add h (seconds 10) ''X''
         \<lparr>window_duration = 10, window_count = 3, bloom_bits = 256, bloom_hashes = 3,
            windows = [(0, nbf), (- seconds 10, nbf), (- seconds 20, nbf)],
            current_window_index = 0\<rparr> =
       Inr \<lparr>window_duration = 10, window_count = 3, bloom_bits = 256, bloom_hashes = 3,
            windows = [(0, b1), (- seconds 10, nbf), (- seconds 20, nbf)],
            current_window_index = 0\<rparr>"
    by (simp add: RotatingBloomFilter_add_def rotate_if_needed_def Let_def b(1) bind_err_def
        seconds_def)
  show ?thesis using n e b i a by blast
qed

theorem rotating_bloom_retention_witness:
  "\<forall>h. \<exists>rb rb1 rb2 rb3.
     RotatingBloomFilter_init 0 10 3 256 3 = Inr rb \<and> rb_ok rb \<and>
     RotatingBloomFilter_add h (seconds 10) ''X'' rb = Inr rb1 \<and>
     deadline rb1 = seconds 30 \<and>
     run_ops h [(seconds 11, Contains_op ''X''), (seconds 21, Add_op ''Y''),
                (seconds 25, Get_filters_op)] rb1 = Inr rb2 \<and>
     RotatingBloomFilter_contains h (seconds 30) ''X'' rb2 = Inr (True, rb3)"
proof
  fix h :: hash
  obtain nbf b1 where e: "bf_ok nbf" "bf_ok b1"
    "RotatingBloomFilter_init 0 10 3 256 3 =
       Inr \<lparr>window_duration = 10, window_count = 3, bloom_bits = 256, bloom_hashes = 3,
            windows = [(0, nbf), (- seconds 10, nbf), (- seconds 20, nbf)],
            current_window_index = 0\<rparr>"
    "RotatingBloomFilter_add h (seconds 10) ''X''
         \<lparr>window_duration = 10, window_count = 3, bloom_bits = 256, bloom_hashes = 3,
            windows = [(0, nbf), (- seconds 10, nbf), (- seconds 20, nbf)],
            current_window_index = 0\<rparr> =
       Inr \<lparr>window_duration = 10, window_count = 3, bloom_bits = 256, bloom_hashes = 3,
            windows = [(0, b1), (- seconds 10, nbf), (- seconds 20, nbf)],
            current_window_index = 0\<rparr>"
    using expiry_run[of h] by blast
  let ?rb = "\<lparr>window_duration = 10, window_count = 3, bloom_bits = 256, bloom_hashes = 3,
            windows = [(0, nbf), (- seconds 10, nbf), (- seconds 20, nbf)],
            current_window_index = 0\<rparr>"
  let ?rb1 = "\<lparr>window_duration = 10, window_count = 3, bloom_bits = 256, bloom_hashes = 3,
            windows = [(0, b1), (- seconds 10, nbf), (- seconds 20, nbf)],
            current_window_index = 0\<rparr>"
  let ?ops = "[(seconds 11, Contains_op ''X''), (seconds 21, Add_op ''Y''),
                (seconds 25, Get_filters_op)]"
  have ok: "rb_ok ?rb" using e(1) by (simp add: rb_ok_def)
  have d: "deadline ?rb1 = seconds 30" by (simp add: deadline_def seconds_def)
  have o: "list_all (\<lambda>c. fst c \<le> deadline ?rb1) ?ops \<and> seconds 30 \<le> deadline ?rb1"
    unfolding d by (simp add: seconds_def)
  obtain r1 where a: "RotatingBloomFilter_add h (seconds 10) ''X'' ?rb = Inr r1"
    and b: "\<forall>ops now. list_all (\<lambda>c. fst c \<le> deadline r1) ops \<and> now \<le> deadline r1 \<longrightarrow>
              (\<exists>rb2 rb3. run_ops h ops r1 = Inr rb2 \<and>
                 RotatingBloomFilter_contains h now ''X'' rb2 = Inr (True, rb3))"
    using rotating_bloom_retention[OF ok, of h "seconds 10" "''X''"] by blast
  have r1: "r1 = ?rb1" using a e(4) by simp
  from b[unfolded r1, rule_format, OF o]
  obtain rb2 rb3 where "run_ops h ?ops ?rb1 = Inr rb2"
    "RotatingBloomFilter_contains h (seconds 30) ''X'' rb2 = Inr (True, rb3)"
    by blast
  thus "\<exists>rb rb1 rb2 rb3.
     RotatingBloomFilter_init 0 10 3 256 3 = Inr rb \<and> rb_ok rb \<and>
     RotatingBloomFilter_add h (seconds 10) ''X'' rb = Inr rb1 \<and>
     deadline rb1 = seconds 30 \<and>
     run_ops h ?ops rb1 = Inr rb2 \<and>
     RotatingBloomFilter_contains h (seconds 30) ''X'' rb2 = Inr (True, rb3)"
    using e(3,4) ok d by blast
qed

text \<open>
  Counted from the call of \<open>add\<close> the bound of the claim fails. A filter of three
  windows of ten seconds is built at time 0; \<open>X\<close> is added at 10 s, into the window
  that started at 0; the lookups at 11 s and 21 s each replace one older window, and
  the lookup at 31 s replaces the window that holds \<open>X\<close> and answers false, 21 s after
  the \<open>add\<close>, for every hash function.
\<close>

theorem rotating_bloom_counterexample:
  "seconds 31 - seconds 10 < seconds (3 * 10) \<and>
   (\<forall>h. expiry_trace h = Inr [True, True, False])"
proof (intro conjI allI)
  show "seconds 31 - seconds 10 < seconds (3 * 10)" by (simp add: seconds_def)
next
  fix h :: hash
  obtain nbf b1 where e: 
    "RotatingBloomFilter_init 0 10 3 256 3 =
       Inr \<lparr>window_duration = 10, window_count = 3, bloom_bits = 256, bloom_hashes = 3,
            windows = [(0, nbf), (- seconds 10, nbf), (- seconds 20, nbf)],
            current_window_index = 0\<rparr>"
    "RotatingBloomFilter_add h (seconds 10) ''X''
         \<lparr>window_duration = 10, window_count = 3, bloom_bits = 256, bloom_hashes = 3,
            windows = [(0, nbf), (- seconds 10, nbf), (- seconds 20, nbf)],
            current_window_index = 0\<rparr> =
       Inr \<lparr>window_duration = 10, window_count = 3, bloom_bits = 256, bloom_hashes = 3,
            windows = [(0, b1), (- seconds 10, nbf), (- seconds 20, nbf)],
            current_window_index = 0\<rparr>"
     "BloomFilter_init 256 3 = Inr nbf"
     "BloomFilter_contains h nbf ''X'' = Inr False"
     "BloomFilter_contains h b1 ''X'' = Inr True"
    using expiry_run[of h] by blast
  let ?rb1 = "\<lparr>window_duration = 10, window_count = 3, bloom_bits = 256, bloom_hashes = 3,
            windows = [(0, b1), (- seconds 10, nbf), (- seconds 20, nbf)],
            current_window_index = 0\<rparr>"
  let ?rb2 = "\<lparr>window_duration = 10, window_count = 3, bloom_bits = 256, bloom_hashes = 3,
            windows = [(seconds 11, nbf), (0, b1), (- seconds 10, nbf)],
            current_window_index = 1\<rparr>"
  let ?rb3 = "\<lparr>window_duration = 10, window_count = 3, bloom_bits = 256, bloom_hashes = 3,
            windows = [(seconds 21, nbf), (seconds 11, nbf), (0, b1)],
            current_window_index = 2\<rparr>"
  let ?rb4 = "\<lparr>window_duration = 10, window_count = 3, bloom_bits = 256, bloom_hashes = 3,
            windows = [(seconds 31, nbf), (seconds 21, nbf), (seconds 11, nbf)],
            current_window_index = 0\<rparr>"
  have s1: "RotatingBloomFilter_contains h (seconds 11) ''X'' ?rb1 = Inr (True, ?rb2)"
    by (simp add: e(3,4,5) bind_err_def RotatingBloomFilter_contains_def rotate_if_needed_def
        Let_def seconds_def)
  have s2: "RotatingBloomFilter_contains h (seconds 21) ''X'' ?rb2 = Inr (True, ?rb3)"
    by (simp add: e(3,4,5) bind_err_def RotatingBloomFilter_contains_def rotate_if_needed_def
        Let_def seconds_def)
  have s3: "RotatingBloomFilter_contains h (seconds 31) ''X'' ?rb3 = Inr (False, ?rb4)"
    by (simp add: e(3,4,5) bind_err_def RotatingBloomFilter_contains_def rotate_if_needed_def
        Let_def seconds_def)
  show "expiry_trace h = Inr [True, True, False]"
    unfolding expiry_trace_def
    by (simp add: e(1) e(2) s1 s2 s3 bind_err_def)
qed

section \<open>Rate limiter of REQ frames (sync/rate_limit.py)\<close>

text \<open>
  Times are the integers of the Bloom filters, and \<open>datetime.utcnow()\<close> is again the
  argument \<open>now\<close>. \<open>timedelta(minutes=1)\<close> is \<open>seconds 60\<close>.
\<close>

record RequestRecord =
  rr_message_id :: string
  first_attempt :: int
  last_attempt :: int
  attempt_count :: int
  backoff_seconds :: int

record RateLimitConfig =
  max_req_per_min :: int
  initial_backoff :: int
  max_backoff :: int
  max_retries :: int


record RateLimiter =
  config :: RateLimitConfig
  request_history :: "int list"
  message_requests :: "string \<rightharpoonup> RequestRecord"







definition get_backoff :: "string \<Rightarrow> RateLimiter \<Rightarrow> int option" where
  "get_backoff mid rl = map_option backoff_seconds (message_requests rl mid)"















subsection \<open>Properties of the rate limiter\<close>


























section \<open>Store (storage/database.py)\<close>

text \<open>
  The tables of the SQLite store that the frame handlers and the transmission loop
  use. A table is the list of its rows in the order of insertion; \<open>seen_cache\<close>, whose
  primary key is \<open>message_id\<close> alone, is a map from that key to the rest of the row.
  The columns \<open>transmitted_at\<close>, \<open>rebroadcast_count\<close> and \<open>raw_frame\<close> of \<open>messages\<close>,
  which nothing here reads, and the tables of counters (\<open>nodes\<close>, \<open>channels\<close>,
  \<open>users\<close>) are left out. \<open>int(datetime.utcnow().timestamp())\<close> is the argument
  \<open>now\<close> of each operation, in seconds.
\<close>

record MessageRow =
  row_id :: string
  row_from_node :: string
  row_author :: "string option"
  row_timestamp :: string
  row_channel :: string
  row_priority :: int
  row_reply_to :: "string option"
  row_body :: string
  row_received_at :: int

record FragmentRow =
  frow_message_id :: string
  frow_idx :: int
  frow_total :: int
  frow_data :: "byte list"
  frow_received_at :: int

record SeenRow =
  fragment_idx :: "int option"
  seen_at :: int
  rebroadcast :: int

record QueueRow =
  q_id :: int
  q_frame_type :: string
  q_frame_data :: "(string \<times> string) list"
  q_priority :: int
  scheduled_at :: int
  created_at :: int
  attempts :: int
  status :: string

record Database =
  messages :: "MessageRow list"
  fragment_rows :: "FragmentRow list"
  seen_cache :: "string \<rightharpoonup> SeenRow"
  transmission_queue :: "QueueRow list"
  queue_seq :: int

definition Database_empty :: Database where
  "Database_empty = \<lparr>messages = [], fragment_rows = [], seen_cache = Map.empty,
     transmission_queue = [], queue_seq = 0\<rparr>"

text \<open>
  \<open>save_message\<close> for the dictionary that \<open>handle_msg_frame\<close> builds from a MSG (it
  has no author). The \<open>INSERT\<close> raises \<open>IntegrityError\<close>, which the function answers
  with \<open>False\<close>, when the primary key \<open>id\<close> is already there, and also, since the
  connection sets \<open>PRAGMA foreign_keys = ON\<close>, when \<open>reply_to\<close> is not \<open>NULL\<close> and names
  no row of \<open>messages\<close> (the new row itself counts).
\<close>

definition save_message :: "int \<Rightarrow> MSG \<Rightarrow> Database \<Rightarrow> bool \<times> Database" where
  "save_message now m db =
     (let ids = set (map row_id (messages db))
      in if msg_id m \<in> ids then (False, db)
         else if (case reply_to m of None \<Rightarrow> False | Some r \<Rightarrow> r \<notin> ids \<union> {msg_id m})
           then (False, db)
         else (True, db\<lparr>messages := messages db @
                 [\<lparr>row_id = msg_id m, row_from_node = from_node m, row_author = None,
                   row_timestamp = timestamp m, row_channel = channel m,
                   row_priority = priority m, row_reply_to = reply_to m, row_body = body m,
                   row_received_at = now\<rparr>]\<rparr>))"

definition get_message :: "string \<Rightarrow> Database \<Rightarrow> MessageRow option" where
  "get_message mid db = find (\<lambda>r. row_id r = mid) (messages db)"

text \<open>\<open>save_fragment\<close>; the primary key is \<open>(message_id, idx)\<close>.\<close>

definition save_fragment :: "int \<Rightarrow> FRAG \<Rightarrow> Database \<Rightarrow> bool \<times> Database" where
  "save_fragment now f db =
     (if (message_id f, idx f) \<in> set (map (\<lambda>r. (frow_message_id r, frow_idx r)) (fragment_rows db))
      then (False, db)
      else (True, db\<lparr>fragment_rows := fragment_rows db @
              [\<lparr>frow_message_id = message_id f, frow_idx = idx f, frow_total = total f,
                frow_data = frag_data f, frow_received_at = now\<rparr>]\<rparr>))"

text \<open>\<open>is_seen\<close>, with its three queries.\<close>

definition is_seen :: "string \<Rightarrow> int option \<Rightarrow> bool \<Rightarrow> Database \<Rightarrow> bool" where
  "is_seen mid fidx rebr db =
     (case seen_cache db mid of
        None \<Rightarrow> False
      | Some r \<Rightarrow>
          (case fidx of
             Some i \<Rightarrow> fragment_idx r = Some i
           | None \<Rightarrow> if rebr then fragment_idx r = None \<and> rebroadcast r = 1
                     else fragment_idx r = None))"

text \<open>\<open>mark_seen\<close>: \<open>INSERT OR REPLACE\<close> replaces the row of the same \<open>message_id\<close>.\<close>

definition mark_seen :: "int \<Rightarrow> string \<Rightarrow> int option \<Rightarrow> bool \<Rightarrow> Database \<Rightarrow> Database" where
  "mark_seen now mid fidx rebr db =
     db\<lparr>seen_cache := (seen_cache db)(mid \<mapsto>
          \<lparr>fragment_idx = fidx, seen_at = now, rebroadcast = (if rebr then 1 else 0)\<rparr>)\<rparr>"

text \<open>\<open>mark_seen_if_new\<close>: \<open>INSERT OR IGNORE\<close> inserts nothing when a row of the same
  \<open>message_id\<close> is there, and the result is whether a row was inserted.\<close>

definition mark_seen_if_new :: "int \<Rightarrow> string \<Rightarrow> int option \<Rightarrow> Database \<Rightarrow> bool \<times> Database" where
  "mark_seen_if_new now mid fidx db =
     (case seen_cache db mid of
        Some r \<Rightarrow> (False, db)
      | None \<Rightarrow> (True, db\<lparr>seen_cache := (seen_cache db)(mid \<mapsto>
                     \<lparr>fragment_idx = fidx, seen_at = now, rebroadcast = 0\<rparr>)\<rparr>))"

text \<open>\<open>queue_transmission\<close>; \<open>delay\<close> is \<open>int(delay_seconds)\<close>, and the key of the new
  row is the next value of the \<open>AUTOINCREMENT\<close> counter.\<close>

definition queue_transmission ::
  "int \<Rightarrow> string \<Rightarrow> (string \<times> string) list \<Rightarrow> int \<Rightarrow> int \<Rightarrow> Database \<Rightarrow> Database" where
  "queue_transmission now ftype fdata prio delay db =
     db\<lparr>transmission_queue := transmission_queue db @
          [\<lparr>q_id = queue_seq db + 1, q_frame_type = ftype, q_frame_data = fdata,
            q_priority = prio, scheduled_at = now + delay, created_at = now, attempts = 0,
            status = ''pending''\<rparr>],
        queue_seq := queue_seq db + 1\<rparr>"





section \<open>Frame handlers of the daemon (main.py)\<close>

text \<open>
  The state of the daemon that the handlers of MSG and FRAG frames touch: the store,
  the fragmenter, the rotating Bloom filter, and the log of the calls of
  \<open>notify_websocket_clients\<close>, each with the row read back from the store. The clock
  \<open>now\<close> is in microseconds as for the Bloom filter; the store gets its seconds.
\<close>

record Daemon =
  database :: Database
  fragmenter :: Fragmenter
  bloom_filter :: RotatingBloomFilter
  notifications :: "MessageRow option list"

definition unix_time :: "int \<Rightarrow> int" where
  "unix_time now = now div 1000000"

text \<open>
  \<open>handle_msg_frame\<close>. \<open>delay\<close> is the whole part of the random delay that
  \<open>calculate_rebroadcast_delay\<close> returns; that function raises \<open>ValueError\<close> for a
  priority outside \<open>0..3\<close>. An exception leaves the handler with the state reached.
\<close>

definition handle_msg_frame ::
  "hash \<Rightarrow> int \<Rightarrow> int \<Rightarrow> MSG \<Rightarrow> Daemon \<Rightarrow> (error + unit) \<times> Daemon" where
  "handle_msg_frame h now delay frame d =
     (case mark_seen_if_new (unix_time now) (msg_id frame) None (database d) of
        (is_new, db1) \<Rightarrow>
          if \<not> is_new then (Inr (), d\<lparr>database := db1\<rparr>)
          else
            (case save_message (unix_time now) frame db1 of
               (saved, db2) \<Rightarrow>
                 if \<not> saved then (Inr (), d\<lparr>database := db2\<rparr>)
                 else
                   (case RotatingBloomFilter_add h now (msg_id frame) (bloom_filter d) of
                      Inl e \<Rightarrow> (Inl e, d\<lparr>database := db2\<rparr>)
                    | Inr bf \<Rightarrow>
                        let d1 = d\<lparr>database := db2, bloom_filter := bf,
                                   notifications := notifications d @
                                     [get_message (msg_id frame) db2]\<rparr>
                        in if is_seen (msg_id frame) None True db2 then (Inr (), d1)
                           else if \<not> (0 \<le> priority frame \<and> priority frame \<le> 3)
                             then (Inl ValueError, d1)
                           else
                             (Inr (),
                              d1\<lparr>database :=
                                   mark_seen (unix_time now) (msg_id frame) None True
                                     (queue_transmission (unix_time now) ''MSG''
                                        (MSG_to_dict frame) (priority frame) delay db2)\<rparr>))))"

text \<open>\<open>handle_frag_frame\<close>.\<close>

definition handle_frag_frame ::
  "hash \<Rightarrow> int \<Rightarrow> int \<Rightarrow> FRAG \<Rightarrow> Daemon \<Rightarrow> (error + unit) \<times> Daemon" where
  "handle_frag_frame h now delay frame d =
     (if is_seen (message_id frame) (Some (idx frame)) False (database d) then (Inr (), d)
      else
        let db1 = mark_seen (unix_time now) (message_id frame) (Some (idx frame)) False (database d);
            db2 = snd (save_fragment (unix_time now) frame db1)
        in case Fragmenter_add_fragment now (fragmenter d) frame of
             (Inl e, fr1) \<Rightarrow> (Inl e, d\<lparr>database := db2, fragmenter := fr1\<rparr>)
           | (Inr (is_new, complete_msg), fr1) \<Rightarrow>
               (case complete_msg of
                  None \<Rightarrow> (Inr (), d\<lparr>database := db2, fragmenter := fr1\<rparr>)
                | Some m \<Rightarrow> handle_msg_frame h now delay m (d\<lparr>database := db2, fragmenter := fr1\<rparr>)))"

text \<open>A daemon that has received nothing, with a given fragmenter threshold and Bloom
  filter, and the handling of a list of frames, each at its time, as long as no
  handler raises.\<close>

definition Daemon_fresh :: "int \<Rightarrow> RotatingBloomFilter \<Rightarrow> Daemon" where
  "Daemon_fresh thr bf =
     \<lparr>database = Database_empty,
      fragmenter = \<lparr>fragment_threshold = thr, collectors = Map.empty\<rparr>,
      bloom_filter = bf, notifications = []\<rparr>"

fun handle_frags :: "hash \<Rightarrow> int \<Rightarrow> (int \<times> FRAG) list \<Rightarrow> Daemon \<Rightarrow> (error + unit) \<times> Daemon" where
  "handle_frags h delay [] d = (Inr (), d)"
| "handle_frags h delay ((now, f) # fs) d =
     (case handle_frag_frame h now delay f d of
        (Inl e, d1) \<Rightarrow> (Inl e, d1)
      | (Inr u, d1) \<Rightarrow> handle_frags h delay fs d1)"

text \<open>A reply to a message that the node has not stored, and the three fragments of
  the 92 bytes of \<open>ex_msg\<close> for a threshold of 90.\<close>

definition reply_msg :: MSG where
  "reply_msg = ex_msg\<lparr>reply_to := Some ''0123456789ab''\<rparr>"

definition ex_frags :: "FRAG list" where
  "ex_frags = map (\<lambda>i. \<lparr>message_id = ''deadbeef0123'', idx = i, total = 3,
                         frag_data = chunk ex_wire 40 i\<rparr>) [0, 1, 2]"

subsection \<open>Properties of the frame handlers\<close>

lemma ex_frags_eq: "fragment_message 90 ex_msg = Inr ex_frags"
proof -
  have l: "(90 :: int) < int (length ex_wire)" by (simp add: ex_wire_length)
  have h: "(50 :: int) < 90" by simp
  have c: "ceil_div (int (length ex_wire)) 40 = 3" by (simp add: ex_wire_length ceil_div_def)
  note r = range_3
  show ?thesis using fragment_message_eq[OF ex_msg_encode h l]
    by (simp add: c r ex_frags_def ex_msg_def)
qed

lemma ex_wire_decode: "FrameParser_decode ex_wire = Some (MSG_frame ex_msg)"
  using MSG_roundtrip(1,2)[OF ex_msg_ok] ex_msg_encode by simp

lemma ex_chunks: "chunk ex_wire 40 0 @ chunk ex_wire 40 1 @ chunk ex_wire 40 2 = ex_wire"
proof -
  have "concat (map (chunk ex_wire 40) (range 3)) = ex_wire"
    by (rule concat_chunk_range) (simp_all add: ex_wire_length)
  thus ?thesis by (simp add: range_def upt_conv_Cons)
qed

lemma ex_wire_nonempty: "ex_wire \<noteq> []"
  using ex_wire_length(1) by auto

lemma reply_msg_valid: "valid_frame (MSG_frame reply_msg)"
  by (simp add: reply_msg_def ex_msg_def MSG_init_def text_eval)

text \<open>
  Claim C1 (dedup exactness) at an input where the code departs from it. The frame is
  a MSG that its constructor accepts and that replies to a message the node has not
  stored. On a daemon that has received nothing, whatever the hash, the clock and the
  delay, \<open>handle_msg_frame\<close> marks the id in \<open>seen_cache\<close>; the \<open>INSERT\<close> of
  \<open>save_message\<close> then violates the foreign key of \<open>reply_to\<close>, which \<open>save_message\<close>
  answers as it answers a duplicate id; the handler returns with no row in \<open>messages\<close>
  and no notification. One distinct id has been ingested; the id stays marked, so a
  repetition of the frame is dropped too.
\<close>

theorem reply_dropped:
  "valid_frame (MSG_frame reply_msg) \<and>
   (\<forall>h now delay thr bf.
      handle_msg_frame h now delay reply_msg (Daemon_fresh thr bf) =
        (Inr (), (Daemon_fresh thr bf)\<lparr>database := Database_empty\<lparr>seen_cache :=
           [''deadbeef0123'' \<mapsto> \<lparr>fragment_idx = None, seen_at = unix_time now, rebroadcast = 0\<rparr>]\<rparr>\<rparr>) \<and>
      messages (database (snd (handle_msg_frame h now delay reply_msg (Daemon_fresh thr bf)))) = [] \<and>
      notifications (snd (handle_msg_frame h now delay reply_msg (Daemon_fresh thr bf))) = [])"
proof (intro conjI allI)
  show "valid_frame (MSG_frame reply_msg)"
    by (rule reply_msg_valid)
next
  fix h now delay thr bf
  show e: "handle_msg_frame h now delay reply_msg (Daemon_fresh thr bf) =
        (Inr (), (Daemon_fresh thr bf)\<lparr>database := Database_empty\<lparr>seen_cache :=
           [''deadbeef0123'' \<mapsto> \<lparr>fragment_idx = None, seen_at = unix_time now, rebroadcast = 0\<rparr>]\<rparr>\<rparr>)"
    by (simp add: handle_msg_frame_def Daemon_fresh_def Database_empty_def mark_seen_if_new_def
      save_message_def reply_msg_def ex_msg_def Let_def)
  show "messages (database (snd (handle_msg_frame h now delay reply_msg (Daemon_fresh thr bf)))) = []"
    unfolding e by (simp add: Database_empty_def)
  show "notifications (snd (handle_msg_frame h now delay reply_msg (Daemon_fresh thr bf))) = []"
    unfolding e by (simp add: Daemon_fresh_def)
qed

lemma ex_msg_id: "msg_id ex_msg = ''deadbeef0123''"
  by (simp add: ex_msg_def)

lemma ex_frags_nth:
  "ex_frags ! 0 = \<lparr>message_id = ''deadbeef0123'', idx = 0, total = 3, frag_data = chunk ex_wire 40 0\<rparr>"
  "ex_frags ! 1 = \<lparr>message_id = ''deadbeef0123'', idx = 1, total = 3, frag_data = chunk ex_wire 40 1\<rparr>"
  "ex_frags ! 2 = \<lparr>message_id = ''deadbeef0123'', idx = 2, total = 3, frag_data = chunk ex_wire 40 2\<rparr>"
  "ex_frags ! Suc 0 = \<lparr>message_id = ''deadbeef0123'', idx = 1, total = 3, frag_data = chunk ex_wire 40 1\<rparr>"
  by (simp_all add: ex_frags_def)

lemma ex_reassemble:
  "reassemble \<lparr>fc_message_id = ''deadbeef0123'', total_fragments = 3,
      fragments = [(2, chunk ex_wire 40 2), (0, chunk ex_wire 40 0), (1, chunk ex_wire 40 1)],
      first_seen = t\<rparr> = Inr (Some ex_wire)"
  by (simp add: reassemble_def is_complete_def range_3 bind_err_def ex_chunks)

text \<open>
  Claim C2 (fragment reassembly delivery) at an input where the code departs from it.
  The 92 bytes of \<open>ex_msg\<close> are split for a threshold of 90 into three fragments, which
  a daemon that has received nothing ingests in the order 2, 0, 1. Each call of
  \<open>handle_frag_frame\<close> writes the row of the message id in \<open>seen_cache\<close>, whose key is
  the id alone. On the last fragment the fragmenter reassembles the MSG and deletes
  its collector, and \<open>handle_msg_frame\<close> finds the id in \<open>seen_cache\<close> and returns as
  for a duplicate: no notification is emitted and no row is stored in \<open>messages\<close>.
\<close>

theorem fragments_dropped:
  "fragment_message 90 ex_msg = Inr ex_frags \<and>
   (\<forall>h delay thr bf t2 t0 t1.
      case handle_frags h delay [(t2, ex_frags ! 2), (t0, ex_frags ! 0), (t1, ex_frags ! 1)]
             (Daemon_fresh thr bf) of
        (r, d) \<Rightarrow>
          r = Inr () \<and> messages (database d) = [] \<and> notifications d = [] \<and>
          length (fragment_rows (database d)) = 3 \<and>
          collectors (fragmenter d) ''deadbeef0123'' = None \<and>
          seen_cache (database d) ''deadbeef0123'' =
            Some \<lparr>fragment_idx = Some 1, seen_at = unix_time t1, rebroadcast = 0\<rparr>)"
proof (intro conjI allI)
  show "fragment_message 90 ex_msg = Inr ex_frags"
    by (rule ex_frags_eq)
next
  fix h :: hash and delay thr t2 t0 t1 :: int and bf
  show "case handle_frags h delay [(t2, ex_frags ! 2), (t0, ex_frags ! 0), (t1, ex_frags ! 1)]
             (Daemon_fresh thr bf) of
        (r, d) \<Rightarrow>
          r = Inr () \<and> messages (database d) = [] \<and> notifications d = [] \<and>
          length (fragment_rows (database d)) = 3 \<and>
          collectors (fragmenter d) ''deadbeef0123'' = None \<and>
          seen_cache (database d) ''deadbeef0123'' =
            Some \<lparr>fragment_idx = Some 1, seen_at = unix_time t1, rebroadcast = 0\<rparr>"
    by (simp add: ex_frags_nth handle_frag_frame_def handle_msg_frame_def Daemon_fresh_def
        Database_empty_def is_seen_def mark_seen_def save_fragment_def mark_seen_if_new_def
        Fragmenter_add_fragment_def FragmentCollector_add_fragment_def is_complete_def
        ex_reassemble ex_wire_nonempty ex_wire_decode Let_def ex_msg_id)
qed

text \<open>
  The same holds of every fragment that completes a message of its own id, in any
  state of the daemon; and a MSG without \<open>reply_to\<close> whose id is new is stored and
  notified once, a repetition leaving the daemon as it is.
\<close>

lemma complete_fragment_dropped:
  assumes "\<not> is_seen (message_id f) (Some (idx f)) False (database d)"
    and "Fragmenter_add_fragment now (fragmenter d) f = (Inr (is_new, Some m), fr1)"
    and "msg_id m = message_id f"
  shows "fst (handle_frag_frame h now delay f d) = Inr () \<and>
         messages (database (snd (handle_frag_frame h now delay f d))) = messages (database d) \<and>
         notifications (snd (handle_frag_frame h now delay f d)) = notifications d"
  using assms
  by (simp add: handle_frag_frame_def handle_msg_frame_def Let_def mark_seen_def
      save_fragment_def mark_seen_if_new_def)

lemma new_msg_stored_once:
  assumes ok: "rb_ok (bloom_filter d)"
    and new: "seen_cache (database d) (msg_id m) = None"
      "msg_id m \<notin> set (map row_id (messages (database d)))"
    and rep: "reply_to m = None"
    and pr: "0 \<le> priority m" "priority m \<le> 3"
  shows "\<exists>d1. handle_msg_frame h now delay m d = (Inr (), d1) \<and>
           length (messages (database d1)) = length (messages (database d)) + 1 \<and>
           length (notifications d1) = length (notifications d) + 1 \<and>
           handle_msg_frame h now' delay' m d1 = (Inr (), d1)"
proof -
  obtain bf where b: "RotatingBloomFilter_add h now (msg_id m) (bloom_filter d) = Inr bf"
    using add_ok[OF ok, of h now "msg_id m"] by blast
  show ?thesis using new rep pr b
    by (simp add: handle_msg_frame_def mark_seen_if_new_def save_message_def Let_def
        is_seen_def mark_seen_def queue_transmission_def get_message_def)
qed

section \<open>Runs of the transmission queue\<close>





subsection \<open>Properties of the transmission queue\<close>


















end
